theory Spec2Isabelle
  imports Main "HOL-Library.Word"
begin

unbundle bit_operations_syntax

section \<open>Data model\<close>

text \<open>
  The three kinds of exception the decoding layer can raise.
  \<^item> \<open>BoundsError\<close> is the \<^verbatim>\<open>Error\<close> thrown by \<^verbatim>\<open>BytesReader.verifyEnd\<close>
    (message "Expected to read ... bytes but read ... bytes"; the message text is not modelled).
  \<^item> \<open>RangeError\<close> is the index-out-of-range exception of the language's
    \<^verbatim>\<open>DataView\<close> and typed-array accessors.
  \<^item> \<open>Revert\<close> is the \<^verbatim>\<open>Revert\<close> thrown on a violated structural constraint, with its message.
\<close>

datatype error = BoundsError | RangeError | Revert string

type_synonym u8 = "8 word"
type_synonym u16 = "16 word"
type_synonym u32 = "32 word"
type_synonym u64 = "64 word"

text \<open>
  \<^verbatim>\<open>BytesReader\<close>: the bytes behind the \<^verbatim>\<open>DataView\<close> and the cursor
  \<^verbatim>\<open>currentOffset: i32\<close>. The offset is an \<open>int\<close>: \<^verbatim>\<open>setOffset\<close> can make it negative.
  It is only ever incremented after a successful in-range access (or by one from a value
  not above the buffer length), so 32-bit wrap-around cannot occur for buffers that fit
  the address space and is not written out.
\<close>

record BytesReader =
  buffer :: "u8 list"
  currentOffset :: int

text \<open>
  A method of the reader takes the reader and returns the value or the exception thrown,
  together with the reader as the method left it (an exception does not undo the
  assignments made before it).
\<close>

type_synonym 'a rd = "BytesReader \<Rightarrow> (error + 'a) \<times> BytesReader"

definition rd_return :: "'a \<Rightarrow> 'a rd" where
  "rd_return a r = (Inr a, r)"

definition rd_throw :: "error \<Rightarrow> 'a rd" where
  "rd_throw e r = (Inl e, r)"

definition rd_bind :: "'a rd \<Rightarrow> ('a \<Rightarrow> 'b rd) \<Rightarrow> 'b rd" where
  "rd_bind m f r = (case m r of (Inl e, r') \<Rightarrow> (Inl e, r') | (Inr a, r') \<Rightarrow> f a r')"

section \<open>DataView accessors\<close>

text \<open>
  The language's \<^verbatim>\<open>DataView\<close>: an access of \<open>w\<close> bytes at \<open>off\<close> raises
  \<open>RangeError\<close> unless \<open>0 \<le> off\<close> and \<open>off + w \<le> byteLength\<close>; multi-byte
  values are assembled little-endian or big-endian as the flag says. The accessor's own
  test adds \<open>off + w\<close> in 32 bits; the sum is taken here without overflow, which is the
  accessor's behaviour for every offset with \<open>off + w < 2 ^ 31\<close>.
\<close>

definition le_nat :: "u8 list \<Rightarrow> nat" where
  "le_nat bs = foldr (\<lambda>b acc. unat b + 256 * acc) bs 0"

definition be_nat :: "u8 list \<Rightarrow> nat" where
  "be_nat bs = foldl (\<lambda>acc b. 256 * acc + unat b) 0 bs"

definition dv_bytes :: "u8 list \<Rightarrow> int \<Rightarrow> nat \<Rightarrow> error + u8 list" where
  "dv_bytes buf off w =
     (if off < 0 \<or> int (length buf) < off + int w then Inl RangeError
      else Inr (take w (drop (nat off) buf)))"

definition dv_word :: "u8 list \<Rightarrow> int \<Rightarrow> nat \<Rightarrow> bool \<Rightarrow> error + 'a::len word" where
  "dv_word buf off w littleEndian =
     (case dv_bytes buf off w of
        Inl e \<Rightarrow> Inl e
      | Inr bs \<Rightarrow> Inr (of_nat (if littleEndian then le_nat bs else be_nat bs)))"

definition getUint8 :: "u8 list \<Rightarrow> int \<Rightarrow> error + u8" where
  "getUint8 buf off =
     (if off < 0 \<or> int (length buf) \<le> off then Inl RangeError else Inr (buf ! nat off))"

definition getUint16 :: "u8 list \<Rightarrow> int \<Rightarrow> bool \<Rightarrow> error + u16" where
  "getUint16 buf off littleEndian = dv_word buf off 2 littleEndian"

definition getUint32 :: "u8 list \<Rightarrow> int \<Rightarrow> bool \<Rightarrow> error + u32" where
  "getUint32 buf off littleEndian = dv_word buf off 4 littleEndian"

definition getUint64 :: "u8 list \<Rightarrow> int \<Rightarrow> bool \<Rightarrow> error + u64" where
  "getUint64 buf off littleEndian = dv_word buf off 8 littleEndian"

text \<open>A signed 64-bit value is kept as its two's-complement bit pattern (read it with \<open>sint\<close>).\<close>

definition getInt64 :: "u8 list \<Rightarrow> int \<Rightarrow> bool \<Rightarrow> error + u64" where
  "getInt64 buf off littleEndian = dv_word buf off 8 littleEndian"

text \<open>A 32-bit float is kept as its IEEE-754 bit pattern.\<close>

definition getFloat32 :: "u8 list \<Rightarrow> int \<Rightarrow> bool \<Rightarrow> error + u32" where
  "getFloat32 buf off littleEndian = dv_word buf off 4 littleEndian"

section \<open>BytesReader\<close>

definition verifyEnd :: "int \<Rightarrow> unit rd" where
  "verifyEnd sz r =
     (if currentOffset r > int (length (buffer r)) then rd_throw BoundsError r
      else rd_return () r)"

definition getOffset :: "int rd" where
  "getOffset r = rd_return (currentOffset r) r"

definition setOffset :: "int \<Rightarrow> unit rd" where
  "setOffset off r = rd_return () (r\<lparr>currentOffset := off\<rparr>)"

text \<open>The accessor call \<^verbatim>\<open>this.buffer.getX(...)\<close>: it does not change the reader.\<close>

definition dv :: "(u8 list \<Rightarrow> error + 'a) \<Rightarrow> 'a rd" where
  "dv g r = (g (buffer r), r)"

text \<open>
  \<^verbatim>\<open>readU8\<close>: the argument \<^verbatim>\<open>this.currentOffset++\<close> is evaluated, and the offset
  incremented, before \<^verbatim>\<open>getUint8\<close> runs its own range check.
\<close>

definition readU8 :: "u8 rd" where
  "readU8 r =
     rd_bind (verifyEnd (currentOffset r + 1)) (\<lambda>_.
     rd_bind getOffset (\<lambda>off.
     rd_bind (setOffset (off + 1)) (\<lambda>_.
     dv (\<lambda>buf. getUint8 buf off)))) r"

definition readU16 :: "u16 rd" where
  "readU16 r =
     rd_bind (verifyEnd (currentOffset r + 2)) (\<lambda>_.
     rd_bind getOffset (\<lambda>off.
     rd_bind (dv (\<lambda>buf. getUint16 buf off True)) (\<lambda>value.
     rd_bind (setOffset (off + 2)) (\<lambda>_.
     rd_return value)))) r"

definition readU32 :: "bool \<Rightarrow> u32 rd" where
  "readU32 le r =
     rd_bind (verifyEnd (currentOffset r + 4)) (\<lambda>_.
     rd_bind getOffset (\<lambda>off.
     rd_bind (dv (\<lambda>buf. getUint32 buf off le)) (\<lambda>value.
     rd_bind (setOffset (off + 4)) (\<lambda>_.
     rd_return value)))) r"

definition readU64 :: "u64 rd" where
  "readU64 r =
     rd_bind (verifyEnd (currentOffset r + 8)) (\<lambda>_.
     rd_bind getOffset (\<lambda>off.
     rd_bind (dv (\<lambda>buf. getUint64 buf off True)) (\<lambda>value.
     rd_bind (setOffset (off + 8)) (\<lambda>_.
     rd_return value)))) r"

definition readI64 :: "u64 rd" where
  "readI64 r =
     rd_bind (verifyEnd (currentOffset r + 8)) (\<lambda>_.
     rd_bind getOffset (\<lambda>off.
     rd_bind (dv (\<lambda>buf. getInt64 buf off True)) (\<lambda>value.
     rd_bind (setOffset (off + 8)) (\<lambda>_.
     rd_return value)))) r"

definition readFloat :: "u32 rd" where
  "readFloat r =
     rd_bind getOffset (\<lambda>off.
     rd_bind (dv (\<lambda>buf. getFloat32 buf off True)) (\<lambda>value.
     rd_bind (setOffset (off + 4)) (\<lambda>_.
     rd_return value))) r"

definition readBoolean :: "bool rd" where
  "readBoolean = rd_bind readU8 (\<lambda>b. rd_return (b \<noteq> 0))"

definition readSelector :: "u32 rd" where
  "readSelector = readU32 False"

text \<open>
  \<^verbatim>\<open>readBytesBE(count)\<close>: the loop \<^verbatim>\<open>for (i = 0; i < count; i++) next32Bytes[i] = readU8()\<close>,
  with the number of iterations left and the array built so far (an assignment at the
  array's length appends).
\<close>

fun readBytesBE_loop :: "nat \<Rightarrow> u8 list \<Rightarrow> u8 list rd" where
  "readBytesBE_loop 0 next32Bytes = rd_return next32Bytes"
| "readBytesBE_loop (Suc k) next32Bytes =
     rd_bind readU8 (\<lambda>b. readBytesBE_loop k (next32Bytes @ [b]))"

definition readBytesBE :: "int \<Rightarrow> u8 list rd" where
  "readBytesBE count = readBytesBE_loop (nat count) []"

text \<open>
  A length that the runtime's array constructor accepts: its maximum array length lies
  just below \<open>2 ^ 30\<close> bytes (the largest block, less the object header), and
  \<open>ARRAY_LENGTH_LIMIT\<close> is below that maximum.
\<close>

definition ARRAY_LENGTH_LIMIT :: nat where
  "ARRAY_LENGTH_LIMIT = 2 ^ 30 - 32"

text \<open>
  \<^verbatim>\<open>readBytes(length, zeroStop)\<close>: \<open>bytes\<close> starts as \<open>length\<close> zero bytes; iteration
  \<open>i\<close> reads one byte and either stores it at index \<open>i\<close> or, in zero-stop mode on a zero
  byte, cuts the array to its first \<open>i\<close> bytes and leaves the loop. The allocation
  \<^verbatim>\<open>new Uint8Array(length)\<close> is taken to succeed: the runtime refuses a length above its
  maximum array length before any byte is read, and that refusal is not part of this
  function. A statement that asserts the outcome of \<^verbatim>\<open>readBytes\<close> for a count that is not
  backed by bytes of the buffer assumes the count is at most \<open>ARRAY_LENGTH_LIMIT\<close>.
\<close>

fun readBytes_loop :: "nat \<Rightarrow> nat \<Rightarrow> bool \<Rightarrow> u8 list \<Rightarrow> u8 list rd" where
  "readBytes_loop 0 i zeroStop bytes = rd_return bytes"
| "readBytes_loop (Suc k) i zeroStop bytes =
     rd_bind readU8 (\<lambda>byte.
       if zeroStop \<and> byte = 0 then rd_return (take i bytes)
       else readBytes_loop k (Suc i) zeroStop (bytes[i := byte]))"

definition readBytes :: "nat \<Rightarrow> bool \<Rightarrow> u8 list rd" where
  "readBytes len zeroStop = readBytes_loop len 0 zeroStop (replicate len 0)"

definition readBytesWithLength :: "u8 list rd" where
  "readBytesWithLength = rd_bind (readU32 True) (\<lambda>len. readBytes (unat len) False)"

text \<open>
  \<^verbatim>\<open>String.UTF8.decode\<close> belongs to the language's library; a decoded string is
  represented by the characters whose codes are its UTF-8 bytes. This is the decoder on
  well-formed UTF-8; what the library does with an ill-formed sequence is not represented.
\<close>

definition UTF8_decode :: "u8 list \<Rightarrow> string" where
  "UTF8_decode bs = map (\<lambda>b. char_of (unat b)) bs"

definition readString :: "u16 \<Rightarrow> string rd" where
  "readString len = rd_bind (readBytes (unat len) True) (\<lambda>bytes. rd_return (UTF8_decode bytes))"

definition readStringWithLength :: "string rd" where
  "readStringWithLength = rd_bind readU16 (\<lambda>len. readString len)"

text \<open>
  The big-integer constructors \<^verbatim>\<open>u128.fromBytesBE\<close>, \<^verbatim>\<open>i128.fromBytesBE\<close>,
  \<^verbatim>\<open>u256.fromBytesBE\<close> and \<^verbatim>\<open>i256.fromBytesBE\<close> belong to libraries: the bytes are the
  big-endian digits of the value; a signed value is kept as its two's-complement bit pattern.
\<close>

type_synonym u128 = "128 word"
type_synonym u256 = "256 word"

definition u128_fromBytesBE :: "u8 list \<Rightarrow> u128" where
  "u128_fromBytesBE bs = of_nat (be_nat bs)"

definition i128_fromBytesBE :: "u8 list \<Rightarrow> u128" where
  "i128_fromBytesBE bs = of_nat (be_nat bs)"

definition u256_fromBytesBE :: "u8 list \<Rightarrow> u256" where
  "u256_fromBytesBE bs = of_nat (be_nat bs)"

definition i256_fromBytesBE :: "u8 list \<Rightarrow> u256" where
  "i256_fromBytesBE bs = of_nat (be_nat bs)"

definition readU256 :: "u256 rd" where
  "readU256 r =
     rd_bind (verifyEnd (currentOffset r + 32)) (\<lambda>_.
     rd_bind (readBytesBE 32) (\<lambda>next32Bytes.
     rd_return (u256_fromBytesBE next32Bytes))) r"

definition readU128 :: "u128 rd" where
  "readU128 r =
     rd_bind (verifyEnd (currentOffset r + 16)) (\<lambda>_.
     rd_bind (readBytesBE 16) (\<lambda>next16Bytes.
     rd_return (u128_fromBytesBE next16Bytes))) r"

definition readI128 :: "u128 rd" where
  "readI128 r =
     rd_bind (verifyEnd (currentOffset r + 16)) (\<lambda>_.
     rd_bind (readBytesBE 16) (\<lambda>next16Bytes.
     rd_return (i128_fromBytesBE next16Bytes))) r"

definition readI256 :: "u256 rd" where
  "readI256 r =
     rd_bind (verifyEnd (currentOffset r + 32)) (\<lambda>_.
     rd_bind (readBytesBE 32) (\<lambda>next32Bytes.
     rd_return (i256_fromBytesBE next32Bytes))) r"

text \<open>
  Modelled from the spec: the class \<^verbatim>\<open>Address\<close> and the constant \<^verbatim>\<open>ADDRESS_BYTE_LENGTH\<close>
  (\<^verbatim>\<open>types/Address\<close>, not among the repository's files). An address is a fixed-width byte
  identifier of \<^verbatim>\<open>ADDRESS_BYTE_LENGTH\<close> bytes; \<^verbatim>\<open>new Address()\<close> is that many zero bytes.
  The width is a parameter of every function that reads an address.
\<close>

type_synonym Address = "u8 list"

fun readAddress_loop :: "nat \<Rightarrow> nat \<Rightarrow> Address \<Rightarrow> Address rd" where
  "readAddress_loop 0 i bytes = rd_return bytes"
| "readAddress_loop (Suc k) i bytes =
     rd_bind readU8 (\<lambda>b. readAddress_loop k (Suc i) (bytes[i := b]))"

definition readAddress :: "nat \<Rightarrow> Address rd" where
  "readAddress ADDRESS_BYTE_LENGTH =
     readAddress_loop ADDRESS_BYTE_LENGTH 0 (replicate ADDRESS_BYTE_LENGTH 0)"

fun readAddressArray_loop :: "nat \<Rightarrow> nat \<Rightarrow> Address list \<Rightarrow> Address list rd" where
  "readAddressArray_loop 0 ADDRESS_BYTE_LENGTH result = rd_return result"
| "readAddressArray_loop (Suc k) ADDRESS_BYTE_LENGTH result =
     rd_bind (readAddress ADDRESS_BYTE_LENGTH) (\<lambda>a.
       readAddressArray_loop k ADDRESS_BYTE_LENGTH (result @ [a]))"

definition readAddressArray :: "nat \<Rightarrow> Address list rd" where
  "readAddressArray ADDRESS_BYTE_LENGTH =
     rd_bind readU16 (\<lambda>len. readAddressArray_loop (unat len) ADDRESS_BYTE_LENGTH [])"

fun readTuple_loop :: "nat \<Rightarrow> u256 list \<Rightarrow> u256 list rd" where
  "readTuple_loop 0 result = rd_return result"
| "readTuple_loop (Suc k) result =
     rd_bind readU256 (\<lambda>v. readTuple_loop k (result @ [v]))"

definition readTuple :: "u256 list rd" where
  "readTuple = rd_bind (readU32 True) (\<lambda>len. readTuple_loop (unat len) [])"

text \<open>
  Modelled from the spec: the class \<^verbatim>\<open>AddressMap\<close> (\<^verbatim>\<open>generic/AddressMap\<close>, not among the
  repository's files), an address-keyed map: \<^verbatim>\<open>has\<close> tells whether the address is
  bound, \<^verbatim>\<open>set\<close> binds it, replacing an earlier binding of the same address.
\<close>

type_synonym 'v AddressMap = "Address \<rightharpoonup> 'v"

definition AddressMap_has :: "'v AddressMap \<Rightarrow> Address \<Rightarrow> bool" where
  "AddressMap_has m a = (m a \<noteq> None)"

definition AddressMap_set :: "'v AddressMap \<Rightarrow> Address \<Rightarrow> 'v \<Rightarrow> 'v AddressMap" where
  "AddressMap_set m a v = m(a \<mapsto> v)"

fun readAddressValueTuple_loop :: "nat \<Rightarrow> nat \<Rightarrow> u256 AddressMap \<Rightarrow> u256 AddressMap rd" where
  "readAddressValueTuple_loop 0 ADDRESS_BYTE_LENGTH result = rd_return result"
| "readAddressValueTuple_loop (Suc k) ADDRESS_BYTE_LENGTH result =
     rd_bind (readAddress ADDRESS_BYTE_LENGTH) (\<lambda>address.
     rd_bind readU256 (\<lambda>value.
       if AddressMap_has result address
       then rd_throw (Revert ''Duplicate address found in map'')
       else readAddressValueTuple_loop k ADDRESS_BYTE_LENGTH (AddressMap_set result address value)))"

definition readAddressValueTuple :: "nat \<Rightarrow> u256 AddressMap rd" where
  "readAddressValueTuple ADDRESS_BYTE_LENGTH =
     rd_bind readU16 (\<lambda>len.
       readAddressValueTuple_loop (unat len) ADDRESS_BYTE_LENGTH Map.empty)"

fun readCalls_loop :: "nat \<Rightarrow> u8 list list \<Rightarrow> u8 list list rd" where
  "readCalls_loop 0 calls = rd_return calls"
| "readCalls_loop (Suc k) calls =
     rd_bind readBytesWithLength (\<lambda>response. readCalls_loop k (calls @ [response]))"

fun readMultiBytesAddressMap_loop ::
  "nat \<Rightarrow> nat \<Rightarrow> u8 list list AddressMap \<Rightarrow> u8 list list AddressMap rd" where
  "readMultiBytesAddressMap_loop 0 ADDRESS_BYTE_LENGTH m = rd_return m"
| "readMultiBytesAddressMap_loop (Suc k) ADDRESS_BYTE_LENGTH m =
     rd_bind (readAddress ADDRESS_BYTE_LENGTH) (\<lambda>address.
     rd_bind readU8 (\<lambda>responseSize.
       if responseSize > 10 then rd_throw (Revert ''Too many calls.'')
       else rd_bind (readCalls_loop (unat responseSize) []) (\<lambda>calls.
         readMultiBytesAddressMap_loop k ADDRESS_BYTE_LENGTH (AddressMap_set m address calls))))"

definition readMultiBytesAddressMap :: "nat \<Rightarrow> u8 list list AddressMap rd" where
  "readMultiBytesAddressMap ADDRESS_BYTE_LENGTH =
     rd_bind readU8 (\<lambda>sz.
       if sz > 8 then rd_throw (Revert ''Too many contract called.'')
       else readMultiBytesAddressMap_loop (unat sz) ADDRESS_BYTE_LENGTH Map.empty)"

text \<open>
  The records built by \<^verbatim>\<open>new TransactionInput(txId, outputIndex, scriptSig)\<close> and
  \<^verbatim>\<open>new TransactionOutput(index, scriptPubKey, value)\<close>.
\<close>

record TransactionInput =
  txId :: "u8 list"
  outputIndex :: u8
  scriptSig :: "u8 list"

record TransactionOutput =
  index :: u8
  scriptPubKey :: "u8 list"
  txValue :: u64

fun readTransactionInputs_loop :: "nat \<Rightarrow> TransactionInput list \<Rightarrow> TransactionInput list rd" where
  "readTransactionInputs_loop 0 result = rd_return result"
| "readTransactionInputs_loop (Suc k) result =
     rd_bind (readBytes 32 False) (\<lambda>tid.
     rd_bind readU8 (\<lambda>oi.
     rd_bind readBytesWithLength (\<lambda>sig.
       readTransactionInputs_loop k
         (result @ [\<lparr>txId = tid, outputIndex = oi, scriptSig = sig\<rparr>]))))"

definition readTransactionInputs :: "TransactionInput list rd" where
  "readTransactionInputs = rd_bind readU8 (\<lambda>len. readTransactionInputs_loop (unat len) [])"

fun readTransactionOutputs_loop :: "nat \<Rightarrow> TransactionOutput list \<Rightarrow> TransactionOutput list rd" where
  "readTransactionOutputs_loop 0 result = rd_return result"
| "readTransactionOutputs_loop (Suc k) result =
     rd_bind readU8 (\<lambda>ix.
     rd_bind readBytesWithLength (\<lambda>spk.
     rd_bind readU64 (\<lambda>v.
       readTransactionOutputs_loop k
         (result @ [\<lparr>index = ix, scriptPubKey = spk, txValue = v\<rparr>]))))"

definition readTransactionOutputs :: "TransactionOutput list rd" where
  "readTransactionOutputs = rd_bind readU8 (\<lambda>len. readTransactionOutputs_loop (unat len) [])"

section \<open>Pointer encoding\<close>

text \<open>
  \<^verbatim>\<open>encodePointer(uniqueIdentifier, typed)\<close> of \<^verbatim>\<open>math/abi.ts\<close>. The hash function
  \<^verbatim>\<open>Sha256.hash\<close> and the conversion \<^verbatim>\<open>bytes32\<close> of the 32-byte array into a
  \<^verbatim>\<open>MemorySlotPointer\<close> are not among the repository's files: both are parameters.
  Reading \<^verbatim>\<open>hash[i]\<close> beyond the hash's length raises \<open>RangeError\<close>.
\<close>

fun encodePointer_loop :: "nat \<Rightarrow> nat \<Rightarrow> u8 list \<Rightarrow> u8 list \<Rightarrow> error + u8 list" where
  "encodePointer_loop 0 i hash finalPointer = Inr finalPointer"
| "encodePointer_loop (Suc k) i hash finalPointer =
     (if i < length hash
      then encodePointer_loop k (Suc i) hash (finalPointer[i + 2 := hash ! i])
      else Inl RangeError)"

definition finalPointer :: "(u8 list \<Rightarrow> u8 list) \<Rightarrow> u16 \<Rightarrow> u8 list \<Rightarrow> error + u8 list" where
  "finalPointer Sha256_hash uniqueIdentifier typed =
     encodePointer_loop 30 0 (Sha256_hash typed)
       ((replicate 32 0)
          [0 := ucast (uniqueIdentifier AND 0xff),
           1 := ucast (drop_bit 8 uniqueIdentifier AND 0xff)])"

definition encodePointer ::
  "(u8 list \<Rightarrow> u8 list) \<Rightarrow> (u8 list \<Rightarrow> 'p) \<Rightarrow> u16 \<Rightarrow> u8 list \<Rightarrow> error + 'p" where
  "encodePointer Sha256_hash bytes32 uniqueIdentifier typed =
     (case finalPointer Sha256_hash uniqueIdentifier typed of
        Inl e \<Rightarrow> Inl e
      | Inr fp \<Rightarrow> Inr (bytes32 fp))"

section \<open>AddressMemoryMap\<close>

text \<open>
  Modelled from the spec: the host storage capability \<^verbatim>\<open>Blockchain.setStorageAt\<close>,
  \<^verbatim>\<open>getStorageAt\<close>, \<^verbatim>\<open>hasStorageAt\<close> (\<^verbatim>\<open>env\<close>, not among the repository's files).
  The host keeps a value per (namespace id, pointer); \<^verbatim>\<open>setStorageAt\<close> stores the value,
  \<^verbatim>\<open>getStorageAt\<close> returns the stored value or the supplied default when there is none,
  \<^verbatim>\<open>hasStorageAt\<close> reports whether a value is stored.
\<close>

type_synonym ('p, 'v) storage = "u16 \<times> 'p \<rightharpoonup> 'v"

definition setStorageAt :: "u16 \<Rightarrow> 'p \<Rightarrow> 'v \<Rightarrow> ('p, 'v) storage \<Rightarrow> ('p, 'v) storage" where
  "setStorageAt pointer keyHash v st = st((pointer, keyHash) \<mapsto> v)"

definition getStorageAt :: "u16 \<Rightarrow> 'p \<Rightarrow> 'v \<Rightarrow> ('p, 'v) storage \<Rightarrow> 'v" where
  "getStorageAt pointer keyHash dflt st =
     (case st (pointer, keyHash) of None \<Rightarrow> dflt | Some v \<Rightarrow> v)"

definition hasStorageAt :: "u16 \<Rightarrow> 'p \<Rightarrow> ('p, 'v) storage \<Rightarrow> bool" where
  "hasStorageAt pointer keyHash st = (st (pointer, keyHash) \<noteq> None)"

text \<open>
  \<^verbatim>\<open>AddressMemoryMap\<close>: the table's namespace id and default value. Its methods call
  \<^verbatim>\<open>encodePointer(key)\<close> with the key alone; that function from keys to pointers is the
  parameter \<open>enc\<close>. A method takes the host storage and, when it writes, returns it updated.
\<close>

record 'v AddressMemoryMap =
  amm_pointer :: u16
  amm_defaultValue :: 'v

definition AddressMemoryMap_set ::
  "('k \<Rightarrow> 'p) \<Rightarrow> 'v AddressMemoryMap \<Rightarrow> 'k \<Rightarrow> 'v \<Rightarrow> ('p, 'v) storage \<Rightarrow> ('p, 'v) storage" where
  "AddressMemoryMap_set enc m key v st = setStorageAt (amm_pointer m) (enc key) v st"

definition AddressMemoryMap_get ::
  "('k \<Rightarrow> 'p) \<Rightarrow> 'v AddressMemoryMap \<Rightarrow> 'k \<Rightarrow> ('p, 'v) storage \<Rightarrow> 'v" where
  "AddressMemoryMap_get enc m key st =
     getStorageAt (amm_pointer m) (enc key) (amm_defaultValue m) st"

definition AddressMemoryMap_has ::
  "('k \<Rightarrow> 'p) \<Rightarrow> 'v AddressMemoryMap \<Rightarrow> 'k \<Rightarrow> ('p, 'v) storage \<Rightarrow> bool" where
  "AddressMemoryMap_has enc m key st = hasStorageAt (amm_pointer m) (enc key) st"

definition AddressMemoryMap_delete ::
  "('k \<Rightarrow> 'p) \<Rightarrow> 'v AddressMemoryMap \<Rightarrow> 'k \<Rightarrow> ('p, 'v) storage \<Rightarrow> bool \<times> ('p, 'v) storage" where
  "AddressMemoryMap_delete enc m key st =
     (True, AddressMemoryMap_set enc m key (amm_defaultValue m) st)"

section \<open>MultiAddressMemoryMap\<close>

text \<open>
  \<^verbatim>\<open>MultiAddressMemoryMap\<close> extends the language's \<^verbatim>\<open>Map\<close> from keys to aggregators
  (\<^verbatim>\<open>Uint8ArrayMerger\<close>); the inherited map is the field \<open>entries\<close>. The class
  \<^verbatim>\<open>Uint8ArrayMerger\<close> is not among the repository's files: the constructor call
  \<^verbatim>\<open>new Uint8ArrayMerger(key, pointer, defaultValue)\<close> is the parameter \<open>newMerger\<close>.
\<close>

record ('k, 'v, 'm) MultiAddressMemoryMap =
  mam_pointer :: u16
  mam_defaultValue :: 'v
  entries :: "'k \<rightharpoonup> 'm"

definition MultiAddressMemoryMap_has :: "('k, 'v, 'm) MultiAddressMemoryMap \<Rightarrow> 'k \<Rightarrow> bool" where
  "MultiAddressMemoryMap_has t key = (entries t key \<noteq> None)"

definition createKeyMerger ::
  "('k \<Rightarrow> u16 \<Rightarrow> 'v \<Rightarrow> 'm) \<Rightarrow> 'k \<Rightarrow> ('k, 'v, 'm) MultiAddressMemoryMap \<Rightarrow>
   ('k, 'v, 'm) MultiAddressMemoryMap" where
  "createKeyMerger newMerger key t =
     (if \<not> MultiAddressMemoryMap_has t key
      then t\<lparr>entries := (entries t)(key \<mapsto> newMerger key (mam_pointer t) (mam_defaultValue t))\<rparr>
      else t)"

definition MultiAddressMemoryMap_get ::
  "('k \<Rightarrow> u16 \<Rightarrow> 'v \<Rightarrow> 'm) \<Rightarrow> 'k \<Rightarrow> ('k, 'v, 'm) MultiAddressMemoryMap \<Rightarrow>
   'm option \<times> ('k, 'v, 'm) MultiAddressMemoryMap" where
  "MultiAddressMemoryMap_get newMerger key t =
     (let t' = createKeyMerger newMerger key t in (entries t' key, t'))"

definition MultiAddressMemoryMap_set ::
  "('k \<Rightarrow> u16 \<Rightarrow> 'v \<Rightarrow> 'm) \<Rightarrow> 'k \<Rightarrow> 'm \<Rightarrow> ('k, 'v, 'm) MultiAddressMemoryMap \<Rightarrow>
   ('k, 'v, 'm) MultiAddressMemoryMap" where
  "MultiAddressMemoryMap_set newMerger key v t =
     (let t' = createKeyMerger newMerger key t in t'\<lparr>entries := (entries t')(key \<mapsto> v)\<rparr>)"

section \<open>Wire format\<close>

text \<open>
  The byte sequences that encode an address-to-u256 map and a call batch, as the wire
  format lays them out: counts and lengths little-endian, then the entries in order.
  They are used to state what the decoders return on well-formed input.
\<close>

definition wire_u16 :: "nat \<Rightarrow> u8 list" where
  "wire_u16 n = [of_nat (n mod 256), of_nat (n div 256 mod 256)]"

definition wire_u32 :: "nat \<Rightarrow> u8 list" where
  "wire_u32 n = [of_nat (n mod 256), of_nat (n div 256 mod 256),
                 of_nat (n div 65536 mod 256), of_nat (n div 16777216 mod 256)]"

text \<open>An address-to-u256 map: the pairs carry the address bytes and the 32 value bytes.\<close>

definition wire_pair :: "Address \<times> u8 list \<Rightarrow> u8 list" where
  "wire_pair p = fst p @ snd p"

definition wire_address_value_map :: "(Address \<times> u8 list) list \<Rightarrow> u8 list" where
  "wire_address_value_map ps = wire_u16 (length ps) @ concat (map wire_pair ps)"

definition wire_blob :: "u8 list \<Rightarrow> u8 list" where
  "wire_blob b = wire_u32 (length b) @ b"

definition wire_calls :: "Address \<times> u8 list list \<Rightarrow> u8 list" where
  "wire_calls e = fst e @ [of_nat (length (snd e))] @ concat (map wire_blob (snd e))"

definition wire_call_batch :: "(Address \<times> u8 list list) list \<Rightarrow> u8 list" where
  "wire_call_batch es = [of_nat (length es)] @ concat (map wire_calls es)"

section \<open>Statement forms for the reader\<close>




text \<open>The offset is within the buffer: between 0 and the buffer length.\<close>

definition within_buffer :: "BytesReader \<Rightarrow> bool" where
  "within_buffer r = (0 \<le> currentOffset r \<and> currentOffset r \<le> int (length (buffer r)))"

text \<open>
  A read keeps the offset within the buffer: started within the buffer, a completed read
  leaves the offset within the buffer and the bytes as they were.
\<close>

definition keeps_within :: "'a rd \<Rightarrow> bool" where
  "keeps_within rd =
     (\<forall>r a r'. within_buffer r \<and> rd r = (Inr a, r') \<longrightarrow> within_buffer r' \<and> buffer r' = buffer r)"

text \<open>A read fails cleanly: whenever it fails, the reader is as it was before the read.\<close>

definition fails_clean :: "'a rd \<Rightarrow> bool" where
  "fails_clean rd = (\<forall>r e r'. rd r = (Inl e, r') \<longrightarrow> r' = r)"

text \<open>A read that fails with the bounds error of \<^verbatim>\<open>verifyEnd\<close> leaves the reader as it was.\<close>

definition bounds_error_clean :: "'a rd \<Rightarrow> bool" where
  "bounds_error_clean rd = (\<forall>r r'. rd r = (Inl BoundsError, r') \<longrightarrow> r' = r)"

section \<open>Basic facts about the reader\<close>

lemma readU8_eq:
  "readU8 r =
     (if currentOffset r > int (length (buffer r)) then (Inl BoundsError, r)
      else if currentOffset r < 0 \<or> currentOffset r = int (length (buffer r))
        then (Inl RangeError, r\<lparr>currentOffset := currentOffset r + 1\<rparr>)
      else (Inr (buffer r ! nat (currentOffset r)), r\<lparr>currentOffset := currentOffset r + 1\<rparr>))"
  by (auto simp: readU8_def rd_bind_def verifyEnd_def rd_throw_def rd_return_def getOffset_def
      setOffset_def dv_def getUint8_def)

lemma readU8_ok:
  "0 \<le> currentOffset r \<Longrightarrow> currentOffset r < int (length (buffer r)) \<Longrightarrow>
   readU8 r = (Inr (buffer r ! nat (currentOffset r)), r\<lparr>currentOffset := currentOffset r + 1\<rparr>)"
  by (simp add: readU8_eq)

lemma drop_nat_Cons:
  "0 \<le> (off::int) \<Longrightarrow> off < int (length buf) \<Longrightarrow>
   drop (nat off) buf = buf ! nat off # drop (nat (off + 1)) buf"
  by (simp add: Cons_nth_drop_Suc nat_add_distrib)

lemma readBytes_loop_zero:
  "0 \<le> currentOffset r \<Longrightarrow>
   0 \<in> set (take k (drop (nat (currentOffset r)) (buffer r))) \<Longrightarrow>
   i + k \<le> length bytes \<Longrightarrow>
   readBytes_loop k i True bytes r =
     (Inr (take i bytes @ takeWhile (\<lambda>b. b \<noteq> 0) (take k (drop (nat (currentOffset r)) (buffer r)))),
      r\<lparr>currentOffset := currentOffset r
            + int (length (takeWhile (\<lambda>b. b \<noteq> 0) (take k (drop (nat (currentOffset r)) (buffer r))))) + 1\<rparr>)"
proof (induction k arbitrary: i bytes r)
  case 0
  then show ?case by simp
next
  case (Suc k)
  let ?off = "currentOffset r"
  let ?buf = "buffer r"
  from Suc.prems(2) have ne: "drop (nat ?off) ?buf \<noteq> []" by auto
  then have lt: "?off < int (length ?buf)" using Suc.prems(1) by simp
  have dr: "drop (nat ?off) ?buf = ?buf ! nat ?off # drop (nat (?off + 1)) ?buf"
    using drop_nat_Cons[OF Suc.prems(1) lt] .
  have rd: "readU8 r = (Inr (?buf ! nat ?off), r\<lparr>currentOffset := ?off + 1\<rparr>)"
    using readU8_ok[OF Suc.prems(1) lt] .
  show ?case
  proof (cases "?buf ! nat ?off = 0")
    case True
    then show ?thesis
      by (simp add: rd_bind_def rd dr rd_return_def)
  next
    case False
    let ?r' = "r\<lparr>currentOffset := ?off + 1\<rparr>"
    have z: "0 \<in> set (take k (drop (nat (currentOffset ?r')) (buffer ?r')))"
      using Suc.prems(2) False by (simp add: dr)
    have len: "Suc i + k \<le> length (bytes[i := ?buf ! nat ?off])"
      using Suc.prems(3) by simp
    have o: "0 \<le> currentOffset ?r'" using Suc.prems(1) by simp
    have tk: "take (Suc i) (bytes[i := ?buf ! nat ?off]) = take i bytes @ [?buf ! nat ?off]"
      using Suc.prems(3) by (simp add: take_Suc_conv_app_nth)
    show ?thesis
      using Suc.IH[OF o z len] False
      by (simp add: rd_bind_def rd dr tk)
  qed
qed

lemma readBytes_loop_all:
  "0 \<le> currentOffset r \<Longrightarrow>
   currentOffset r + int k \<le> int (length (buffer r)) \<Longrightarrow>
   zeroStop \<longrightarrow> 0 \<notin> set (take k (drop (nat (currentOffset r)) (buffer r))) \<Longrightarrow>
   i + k \<le> length bytes \<Longrightarrow>
   readBytes_loop k i zeroStop bytes r =
     (Inr (take i bytes @ take k (drop (nat (currentOffset r)) (buffer r)) @ drop (i + k) bytes),
      r\<lparr>currentOffset := currentOffset r + int k\<rparr>)"
proof (induction k arbitrary: i bytes r)
  case 0
  then show ?case by (simp add: rd_return_def)
next
  case (Suc k)
  let ?off = "currentOffset r"
  let ?buf = "buffer r"
  have lt: "?off < int (length ?buf)" using Suc.prems(2) by simp
  have dr: "drop (nat ?off) ?buf = ?buf ! nat ?off # drop (nat (?off + 1)) ?buf"
    using drop_nat_Cons[OF Suc.prems(1) lt] .
  have rd: "readU8 r = (Inr (?buf ! nat ?off), r\<lparr>currentOffset := ?off + 1\<rparr>)"
    using readU8_ok[OF Suc.prems(1) lt] .
  let ?r' = "r\<lparr>currentOffset := ?off + 1\<rparr>"
  have nz: "\<not> (zeroStop \<and> ?buf ! nat ?off = 0)"
    using Suc.prems(3) by (auto simp: dr)
  have z: "zeroStop \<longrightarrow> 0 \<notin> set (take k (drop (nat (currentOffset ?r')) (buffer ?r')))"
    using Suc.prems(3) by (simp add: dr)
  have len: "Suc i + k \<le> length (bytes[i := ?buf ! nat ?off])"
    using Suc.prems(4) by simp
  have o: "0 \<le> currentOffset ?r'" using Suc.prems(1) by simp
  have b: "currentOffset ?r' + int k \<le> int (length (buffer ?r'))" using Suc.prems(2) by simp
  have tk: "take (Suc i) (bytes[i := ?buf ! nat ?off]) = take i bytes @ [?buf ! nat ?off]"
    using Suc.prems(4) by (simp add: take_Suc_conv_app_nth)
  show ?case
    using Suc.IH[OF o b z len] nz
    by (auto simp: rd_bind_def rd dr tk add.assoc)
qed


lemma readBytes_loop_short:
  "0 \<le> currentOffset r \<Longrightarrow>
   currentOffset r \<le> int (length (buffer r)) \<Longrightarrow>
   int (length (buffer r)) < currentOffset r + int k \<Longrightarrow>
   zeroStop \<longrightarrow> 0 \<notin> set (drop (nat (currentOffset r)) (buffer r)) \<Longrightarrow>
   readBytes_loop k i zeroStop bytes r =
     (Inl RangeError, r\<lparr>currentOffset := int (length (buffer r)) + 1\<rparr>)"
proof (induction k arbitrary: i bytes r)
  case 0
  then show ?case by simp
next
  case (Suc k)
  let ?off = "currentOffset r"
  let ?buf = "buffer r"
  show ?case
  proof (cases "?off = int (length ?buf)")
    case True
    then show ?thesis by (simp add: rd_bind_def readU8_eq)
  next
    case False
    then have lt: "?off < int (length ?buf)" using Suc.prems(2) by simp
    have dr: "drop (nat ?off) ?buf = ?buf ! nat ?off # drop (nat (?off + 1)) ?buf"
      using drop_nat_Cons[OF Suc.prems(1) lt] .
    have rd: "readU8 r = (Inr (?buf ! nat ?off), r\<lparr>currentOffset := ?off + 1\<rparr>)"
      using readU8_ok[OF Suc.prems(1) lt] .
    let ?r' = "r\<lparr>currentOffset := ?off + 1\<rparr>"
    have nz: "\<not> (zeroStop \<and> ?buf ! nat ?off = 0)"
      using Suc.prems(4) by (auto simp: dr)
    have z: "zeroStop \<longrightarrow> 0 \<notin> set (drop (nat (currentOffset ?r')) (buffer ?r'))"
      using Suc.prems(4) by (simp add: dr)
    have o: "0 \<le> currentOffset ?r'" using Suc.prems(1) by simp
    have b: "currentOffset ?r' \<le> int (length (buffer ?r'))" using lt by simp
    have c: "int (length (buffer ?r')) < currentOffset ?r' + int k" using Suc.prems(3) by simp
    show ?thesis
      using Suc.IH[OF o b c z] nz
      by (auto simp: rd_bind_def rd)
  qed
qed

lemma le_nat_bound: "le_nat bs < 256 ^ length bs"
proof (induction bs)
  case Nil
  then show ?case by (simp add: le_nat_def)
next
  case (Cons b bs)
  have "unat b < 256" using unsigned_less[of b] by simp
  moreover have "le_nat (b # bs) = unat b + 256 * le_nat bs" by (simp add: le_nat_def)
  ultimately show ?case using Cons by simp
qed

lemma readU16_ok:
  "0 \<le> currentOffset r \<Longrightarrow> currentOffset r + 2 \<le> int (length (buffer r)) \<Longrightarrow>
   readU16 r = (Inr (of_nat (le_nat (take 2 (drop (nat (currentOffset r)) (buffer r))))),
                r\<lparr>currentOffset := currentOffset r + 2\<rparr>)"
  by (simp add: readU16_def rd_bind_def verifyEnd_def rd_return_def getOffset_def setOffset_def
      dv_def getUint16_def dv_word_def dv_bytes_def)

lemma unat_u16_le_nat:
  "length bs = 2 \<Longrightarrow> unat (of_nat (le_nat bs) :: u16) = le_nat bs"
  using le_nat_bound[of bs] by (simp add: unat_of_nat)

section \<open>Zero-stop reads\<close>

text \<open>
  Claim C1, as the code has it: for a declared count \<open>N\<close> that the runtime can allocate,
  \<^verbatim>\<open>readBytes(N, zeroStop = true)\<close> started at a non-negative offset returns the bytes before the first zero byte among the \<open>N\<close> declared bytes, and
  the loop leaves at that zero: the offset advances by the number of bytes returned plus
  one (the zero itself), not by \<open>N\<close>. When none of the \<open>N\<close> bytes is zero and all of them
  are in the buffer, it returns the \<open>N\<close> bytes and the offset advances by \<open>N\<close>.
\<close>

theorem C1_readBytes_zeroStop:
  assumes "0 \<le> currentOffset r" and "N \<le> ARRAY_LENGTH_LIMIT"
  shows
    "(0 \<in> set (take N (drop (nat (currentOffset r)) (buffer r))) \<longrightarrow>
        readBytes N True r =
          (Inr (takeWhile (\<lambda>b. b \<noteq> 0) (take N (drop (nat (currentOffset r)) (buffer r)))),
           r\<lparr>currentOffset := currentOffset r
              + int (length (takeWhile (\<lambda>b. b \<noteq> 0) (take N (drop (nat (currentOffset r)) (buffer r)))))
              + 1\<rparr>)) \<and>
     (0 \<notin> set (take N (drop (nat (currentOffset r)) (buffer r))) \<and>
      currentOffset r + int N \<le> int (length (buffer r)) \<longrightarrow>
        readBytes N True r =
          (Inr (take N (drop (nat (currentOffset r)) (buffer r))),
           r\<lparr>currentOffset := currentOffset r + int N\<rparr>))"
proof (intro conjI impI)
  assume z: "0 \<in> set (take N (drop (nat (currentOffset r)) (buffer r)))"
  show "readBytes N True r =
          (Inr (takeWhile (\<lambda>b. b \<noteq> 0) (take N (drop (nat (currentOffset r)) (buffer r)))),
           r\<lparr>currentOffset := currentOffset r
              + int (length (takeWhile (\<lambda>b. b \<noteq> 0) (take N (drop (nat (currentOffset r)) (buffer r)))))
              + 1\<rparr>)"
    using readBytes_loop_zero[OF assms(1) z, of 0 "replicate N 0"]
    by (simp add: readBytes_def)
next
  assume a: "0 \<notin> set (take N (drop (nat (currentOffset r)) (buffer r))) \<and>
      currentOffset r + int N \<le> int (length (buffer r))"
  then have z: "True \<longrightarrow> 0 \<notin> set (take N (drop (nat (currentOffset r)) (buffer r)))"
    and b: "currentOffset r + int N \<le> int (length (buffer r))" by simp_all
  show "readBytes N True r =
          (Inr (take N (drop (nat (currentOffset r)) (buffer r))),
           r\<lparr>currentOffset := currentOffset r + int N\<rparr>)"
    using readBytes_loop_all[OF assms(1) b z, of 0 "replicate N 0"]
    by (simp add: readBytes_def)
qed

text \<open>
  The theorem at the buffer \<open>[1,2,0,4,5]\<close>: with \<open>N = 5\<close> the zero at index 2 stops the read
  at offset 3; with \<open>N = 2\<close> no zero is met and the offset advances by 2.
\<close>

theorem C1_readBytes_zeroStop_witness:
  "readBytes 5 True \<lparr>buffer = [1, 2, 0, 4, 5], currentOffset = 0\<rparr> =
     (Inr [1, 2], \<lparr>buffer = [1, 2, 0, 4, 5], currentOffset = 3\<rparr>) \<and>
   readBytes 2 True \<lparr>buffer = [1, 2, 0, 4, 5], currentOffset = 0\<rparr> =
     (Inr [1, 2], \<lparr>buffer = [1, 2, 0, 4, 5], currentOffset = 2\<rparr>)"
  using C1_readBytes_zeroStop[of "\<lparr>buffer = [1, 2, 0, 4, 5], currentOffset = 0\<rparr>" 5]
    C1_readBytes_zeroStop[of "\<lparr>buffer = [1, 2, 0, 4, 5], currentOffset = 0\<rparr>" 2]
  by (simp add: ARRAY_LENGTH_LIMIT_def)

text \<open>
  The scenario of claim C1 on the code: \<^verbatim>\<open>readBytes(5, true)\<close> over \<open>[1,2,0,4,5]\<close> returns
  \<open>[1,2]\<close>, but the offset afterwards is the starting offset + 3, not + 5.
\<close>

theorem C1_scenario_counterexample:
  "fst (readBytes 5 True \<lparr>buffer = [1, 2, 0, 4, 5], currentOffset = 0\<rparr>) = Inr [1, 2] \<and>
   currentOffset (snd (readBytes 5 True \<lparr>buffer = [1, 2, 0, 4, 5], currentOffset = 0\<rparr>)) = 3 \<and>
   currentOffset (snd (readBytes 5 True \<lparr>buffer = [1, 2, 0, 4, 5], currentOffset = 0\<rparr>)) \<noteq> 0 + 5"
  by (simp add: readBytes_def eval_nat_numeral readU8_eq rd_bind_def rd_return_def)

text \<open>
  Claim C10: \<^verbatim>\<open>readStringWithLength\<close> reads the \<^verbatim>\<open>u16\<close> length prefix (little-endian) and then
  decodes in zero-stop mode. When a zero byte occurs among the next \<open>length\<close> bytes, the
  string is the decoding of the bytes before the first zero, and the cursor has consumed
  the two prefix bytes and the bytes up to and including that zero.
\<close>

theorem C10_readStringWithLength_zero_truncated:
  assumes "0 \<le> currentOffset r"
    and "currentOffset r + 2 \<le> int (length (buffer r))"
    and "0 \<in> set (take (le_nat (take 2 (drop (nat (currentOffset r)) (buffer r))))
                   (drop (nat (currentOffset r + 2)) (buffer r)))"
  shows "readStringWithLength r =
     (Inr (UTF8_decode (takeWhile (\<lambda>b. b \<noteq> 0)
             (take (le_nat (take 2 (drop (nat (currentOffset r)) (buffer r))))
                   (drop (nat (currentOffset r + 2)) (buffer r))))),
      r\<lparr>currentOffset := currentOffset r + 2
          + int (length (takeWhile (\<lambda>b. b \<noteq> 0)
             (take (le_nat (take 2 (drop (nat (currentOffset r)) (buffer r))))
                   (drop (nat (currentOffset r + 2)) (buffer r)))))
          + 1\<rparr>)"
proof -
  let ?n = "le_nat (take 2 (drop (nat (currentOffset r)) (buffer r)))"
  let ?r' = "r\<lparr>currentOffset := currentOffset r + 2\<rparr>"
  have l2: "length (take 2 (drop (nat (currentOffset r)) (buffer r))) = 2"
    using assms(1,2) by simp
  have u: "unat (of_nat ?n :: u16) = ?n" using unat_u16_le_nat[OF l2] .
  have o: "0 \<le> currentOffset ?r'" using assms(1) by simp
  have z: "0 \<in> set (take ?n (drop (nat (currentOffset ?r')) (buffer ?r')))"
    using assms(3) by simp
  have "readBytes ?n True ?r' = readBytes_loop ?n 0 True (replicate ?n 0) ?r'"
    by (simp add: readBytes_def)
  also have "\<dots> = (Inr (takeWhile (\<lambda>b. b \<noteq> 0) (take ?n (drop (nat (currentOffset ?r')) (buffer ?r')))),
      ?r'\<lparr>currentOffset := currentOffset ?r'
          + int (length (takeWhile (\<lambda>b. b \<noteq> 0) (take ?n (drop (nat (currentOffset ?r')) (buffer ?r'))))) + 1\<rparr>)"
    using readBytes_loop_zero[OF o z, of 0 "replicate ?n 0"] by simp
  finally have rb: "readBytes ?n True ?r' =
     (Inr (takeWhile (\<lambda>b. b \<noteq> 0) (take ?n (drop (nat (currentOffset r + 2)) (buffer r)))),
      r\<lparr>currentOffset := currentOffset r + 2
          + int (length (takeWhile (\<lambda>b. b \<noteq> 0) (take ?n (drop (nat (currentOffset r + 2)) (buffer r))))) + 1\<rparr>)"
    by simp
  show ?thesis
    by (simp add: readStringWithLength_def readString_def rd_bind_def
        readU16_ok[OF assms(1,2)] u rb rd_return_def)
qed

text \<open>
  The theorem at a buffer whose prefix announces 4 bytes, \<open>A B 0 C\<close>: the string is \<open>AB\<close>
  and the offset afterwards is 5, not 6.
\<close>

theorem C10_readStringWithLength_zero_truncated_witness:
  "readStringWithLength \<lparr>buffer = [4, 0, 0x41, 0x42, 0, 0x43, 0x44], currentOffset = 0\<rparr> =
     (Inr (UTF8_decode [0x41, 0x42]), \<lparr>buffer = [4, 0, 0x41, 0x42, 0, 0x43, 0x44], currentOffset = 5\<rparr>)"
  using C10_readStringWithLength_zero_truncated
    [of "\<lparr>buffer = [4, 0, 0x41, 0x42, 0, 0x43, 0x44], currentOffset = 0\<rparr>"]
  by (simp add: le_nat_def)

section \<open>Pointer encoding: the pointer's bytes\<close>

lemma ff_mask: "(0xff :: u16) = mask 8"
  by (simp add: mask_eq_exp_minus_1)

lemma unat_and_ff: "unat ((x::u16) AND 0xff) = unat x mod 256"
proof -
  have "x AND 0xff = take_bit 8 x" by (simp only: ff_mask take_bit_eq_mask)
  then show ?thesis by (simp add: unsigned_take_bit_eq take_bit_eq_mod unat_mod)
qed

lemma ucast_lo: "(ucast ((ns::u16) AND 0xff) :: u8) = of_nat (unat ns mod 256)"
  by (simp add: word_unat_eq_iff unsigned_ucast_eq unat_and_ff unat_of_nat take_bit_eq_mod)

lemma encodePointer_loop_ok:
  "i + k \<le> length hash \<Longrightarrow> i + 2 + k \<le> length fp \<Longrightarrow>
   encodePointer_loop k i hash fp =
     Inr (take (i + 2) fp @ take k (drop i hash) @ drop (i + 2 + k) fp)"
proof (induction k arbitrary: i fp)
  case 0
  then show ?case by simp
next
  case (Suc k)
  have i: "i < length hash" using Suc.prems(1) by simp
  have a: "Suc i + k \<le> length hash" using Suc.prems(1) by simp
  have b: "Suc i + 2 + k \<le> length (fp[i + 2 := hash ! i])" using Suc.prems(2) by simp
  have tk: "take (Suc (Suc (Suc i))) (fp[Suc (Suc i) := hash ! i]) = take (Suc (Suc i)) fp @ [hash ! i]"
    using Suc.prems(2) by (simp add: take_Suc_conv_app_nth)
  have dr: "take (Suc k) (drop i hash) = hash ! i # take k (drop (Suc i) hash)"
    using i by (simp add: Cons_nth_drop_Suc[symmetric])
  show ?case
    using Suc.IH[OF a b] i by (simp add: tk dr del: take_Suc_Cons)
qed

lemma replicate_32: "replicate 32 x = x # x # replicate 30 x"
proof -
  have "(32::nat) = Suc (Suc 30)" by simp
  then show ?thesis by (simp only: replicate_Suc)
qed

lemma finalPointer_ok:
  assumes "30 \<le> length (H k)"
  shows "finalPointer H ns k = Inr (wire_u16 (unat ns) @ take 30 (H k))"
proof -
  let ?a = "ucast (ns AND 0xff) :: u8"
  let ?b = "ucast (drop_bit 8 ns AND 0xff) :: u8"
  let ?fp = "?a # ?b # replicate 30 (0::u8)"
  have fp: "(replicate 32 (0::u8))[0 := ?a, 1 := ?b] = ?fp"
    by (simp only: replicate_32) simp
  have l: "0 + 2 + 30 \<le> length ?fp" by simp
  have h: "0 + 30 \<le> length (H k)" using assms by simp
  have t: "take (0 + 2) ?fp = wire_u16 (unat ns)"
    by (simp only: wire_u16_def ucast_lo) (simp add: unat_drop_bit_eq drop_bit_eq_div unat_div)
  have d: "drop (0 + 2 + 30) ?fp = []" by simp
  have "finalPointer H ns k = encodePointer_loop 30 0 (H k) ?fp"
    unfolding finalPointer_def fp ..
  also have "\<dots> = Inr (take (0 + 2) ?fp @ take 30 (drop 0 (H k)) @ drop (0 + 2 + 30) ?fp)"
    by (rule encodePointer_loop_ok[OF h l])
  also have "\<dots> = Inr (wire_u16 (unat ns) @ take 30 (H k))"
    by (simp only: t d) simp
  finally show ?thesis .
qed

text \<open>
  Claim C5: \<^verbatim>\<open>encodePointer\<close> is a function of its arguments (and of the hash function it
  is given): whenever the hash has at least 30 bytes, the 32-byte array handed to
  \<^verbatim>\<open>bytes32\<close> is the namespace id in little-endian (2 bytes) followed by the first 30
  bytes of the hash of the key. Hence two namespace ids with the same key give arrays that
  agree from byte 2 on.
\<close>

theorem C5_encodePointer:
  assumes "30 \<le> length (Sha256_hash k)"
  shows "finalPointer Sha256_hash ns k = Inr (wire_u16 (unat ns) @ take 30 (Sha256_hash k)) \<and>
         encodePointer Sha256_hash bytes32 ns k =
           Inr (bytes32 (wire_u16 (unat ns) @ take 30 (Sha256_hash k))) \<and>
         length (wire_u16 (unat ns) @ take 30 (Sha256_hash k)) = 32 \<and>
         le_nat (wire_u16 (unat ns)) = unat ns \<and>
         (\<exists>fp fp'. finalPointer Sha256_hash ns k = Inr fp \<and>
                   finalPointer Sha256_hash ns' k = Inr fp' \<and>
                   drop 2 fp = drop 2 fp' \<and> drop 2 fp = take 30 (Sha256_hash k))"
proof -
  have lt: "unat ns < 65536" using unsigned_less[of ns] by simp
  have le: "le_nat (wire_u16 (unat ns)) = unat ns"
    using lt by (simp add: le_nat_def wire_u16_def unat_of_nat)
  show ?thesis
    using assms le
    by (simp add: finalPointer_ok[of Sha256_hash k] encodePointer_def wire_u16_def)
qed

text \<open>
  The theorem at a hash function with 32-byte results, for the namespace ids 1 and \<open>0x0302\<close>.
\<close>

theorem C5_encodePointer_witness:
  "finalPointer (\<lambda>k. replicate 32 7) 1 [98, 97, 108] = Inr ([1, 0] @ replicate 30 7) \<and>
   finalPointer (\<lambda>k. replicate 32 7) 0x0302 [98, 97, 108] = Inr ([2, 3] @ replicate 30 7)"
  using C5_encodePointer[of "\<lambda>k. replicate 32 7" "[98, 97, 108]" 1 id]
        C5_encodePointer[of "\<lambda>k. replicate 32 7" "[98, 97, 108]" "0x0302" id]
  by (simp add: wire_u16_def)

section \<open>The two stores\<close>

text \<open>
  Claim C7: \<^verbatim>\<open>AddressMemoryMap.delete(key)\<close> returns true and stores the table's default
  value at the key's pointer; afterwards \<^verbatim>\<open>get(key)\<close> returns the default value and
  \<^verbatim>\<open>has(key)\<close> reports true.
\<close>

theorem C7_delete_is_tombstone:
  "fst (AddressMemoryMap_delete enc m key st) = True \<and>
   snd (AddressMemoryMap_delete enc m key st) =
     setStorageAt (amm_pointer m) (enc key) (amm_defaultValue m) st \<and>
   AddressMemoryMap_get enc m key (snd (AddressMemoryMap_delete enc m key st)) = amm_defaultValue m \<and>
   AddressMemoryMap_has enc m key (snd (AddressMemoryMap_delete enc m key st)) = True"
  by (simp add: AddressMemoryMap_delete_def AddressMemoryMap_set_def AddressMemoryMap_get_def
      AddressMemoryMap_has_def setStorageAt_def getStorageAt_def hasStorageAt_def)

text \<open>
  Claim C8: \<^verbatim>\<open>MultiAddressMemoryMap.set(key, value)\<close> first runs \<^verbatim>\<open>createKeyMerger\<close>, after
  which the key is bound (to its earlier aggregator, or to a fresh default one when there
  was none), and then overwrites the entry: the entry for the key is the supplied
  aggregator, and the table is the one before the call with that single entry replaced.
\<close>

theorem C8_set_overwrites:
  "MultiAddressMemoryMap_has (createKeyMerger newMerger key t) key \<and>
   entries (createKeyMerger newMerger key t) key =
     Some (case entries t key of
             None \<Rightarrow> newMerger key (mam_pointer t) (mam_defaultValue t)
           | Some a \<Rightarrow> a) \<and>
   entries (MultiAddressMemoryMap_set newMerger key v t) key = Some v \<and>
   MultiAddressMemoryMap_set newMerger key v t = t\<lparr>entries := (entries t)(key \<mapsto> v)\<rparr>"
  by (auto simp: MultiAddressMemoryMap_set_def createKeyMerger_def MultiAddressMemoryMap_has_def
      Let_def)

section \<open>Fixed-width reads\<close>

lemma readU16_eq:
  "readU16 r =
     (if currentOffset r > int (length (buffer r)) then (Inl BoundsError, r)
      else if currentOffset r < 0 \<or> int (length (buffer r)) < currentOffset r + 2
        then (Inl RangeError, r)
      else (Inr (of_nat (le_nat (take 2 (drop (nat (currentOffset r)) (buffer r))))),
            r\<lparr>currentOffset := currentOffset r + 2\<rparr>))"
  by (simp add: readU16_def rd_bind_def verifyEnd_def rd_throw_def rd_return_def getOffset_def
      setOffset_def dv_def getUint16_def dv_word_def dv_bytes_def)

lemma readU32_eq:
  "readU32 le r =
     (if currentOffset r > int (length (buffer r)) then (Inl BoundsError, r)
      else if currentOffset r < 0 \<or> int (length (buffer r)) < currentOffset r + 4
        then (Inl RangeError, r)
      else (Inr (of_nat (if le then le_nat (take 4 (drop (nat (currentOffset r)) (buffer r)))
                         else be_nat (take 4 (drop (nat (currentOffset r)) (buffer r))))),
            r\<lparr>currentOffset := currentOffset r + 4\<rparr>))"
  by (simp add: readU32_def rd_bind_def verifyEnd_def rd_throw_def rd_return_def getOffset_def
      setOffset_def dv_def getUint32_def dv_word_def dv_bytes_def)

lemma readU64_eq:
  "readU64 r =
     (if currentOffset r > int (length (buffer r)) then (Inl BoundsError, r)
      else if currentOffset r < 0 \<or> int (length (buffer r)) < currentOffset r + 8
        then (Inl RangeError, r)
      else (Inr (of_nat (le_nat (take 8 (drop (nat (currentOffset r)) (buffer r))))),
            r\<lparr>currentOffset := currentOffset r + 8\<rparr>))"
  by (simp add: readU64_def rd_bind_def verifyEnd_def rd_throw_def rd_return_def getOffset_def
      setOffset_def dv_def getUint64_def dv_word_def dv_bytes_def)

lemma readI64_eq:
  "readI64 r =
     (if currentOffset r > int (length (buffer r)) then (Inl BoundsError, r)
      else if currentOffset r < 0 \<or> int (length (buffer r)) < currentOffset r + 8
        then (Inl RangeError, r)
      else (Inr (of_nat (le_nat (take 8 (drop (nat (currentOffset r)) (buffer r))))),
            r\<lparr>currentOffset := currentOffset r + 8\<rparr>))"
  by (simp add: readI64_def rd_bind_def verifyEnd_def rd_throw_def rd_return_def getOffset_def
      setOffset_def dv_def getInt64_def dv_word_def dv_bytes_def)

lemma readFloat_eq:
  "readFloat r =
     (if currentOffset r < 0 \<or> int (length (buffer r)) < currentOffset r + 4
        then (Inl RangeError, r)
      else (Inr (of_nat (le_nat (take 4 (drop (nat (currentOffset r)) (buffer r))))),
            r\<lparr>currentOffset := currentOffset r + 4\<rparr>))"
  by (simp add: readFloat_def rd_bind_def rd_return_def getOffset_def
      setOffset_def dv_def getFloat32_def dv_word_def dv_bytes_def)

lemma readBytesBE_loop_eq:
  "readBytesBE_loop k acc r =
     (if k = 0 then (Inr acc, r)
      else if currentOffset r > int (length (buffer r)) then (Inl BoundsError, r)
      else if currentOffset r < 0 then (Inl RangeError, r\<lparr>currentOffset := currentOffset r + 1\<rparr>)
      else if int (length (buffer r)) < currentOffset r + int k
        then (Inl RangeError, r\<lparr>currentOffset := int (length (buffer r)) + 1\<rparr>)
      else (Inr (acc @ take k (drop (nat (currentOffset r)) (buffer r))),
            r\<lparr>currentOffset := currentOffset r + int k\<rparr>))"
proof (induction k arbitrary: acc r)
  case 0
  then show ?case by (simp add: rd_return_def)
next
  case (Suc k)
  let ?off = "currentOffset r"
  let ?buf = "buffer r"
  consider (beyond) "?off > int (length ?buf)" | (neg) "?off < 0" | (atend) "?off = int (length ?buf)"
    | (inside) "0 \<le> ?off" "?off < int (length ?buf)" by linarith
  then show ?case
  proof cases
    case beyond
    then show ?thesis by (simp add: rd_bind_def readU8_eq)
  next
    case neg
    then show ?thesis by (simp add: rd_bind_def readU8_eq)
  next
    case atend
    then show ?thesis by (simp add: rd_bind_def readU8_eq)
  next
    case inside
    have dr: "drop (nat ?off) ?buf = ?buf ! nat ?off # drop (nat (?off + 1)) ?buf"
      using drop_nat_Cons[OF inside] .
    have rd: "readU8 r = (Inr (?buf ! nat ?off), r\<lparr>currentOffset := ?off + 1\<rparr>)"
      using readU8_ok[OF inside] .
    show ?thesis
      using inside by (auto simp: rd_bind_def rd Suc.IH dr add.assoc)
  qed
qed


lemma readBytes_eq:
  "readBytes N False r =
     (if N = 0 then (Inr [], r)
      else if currentOffset r > int (length (buffer r)) then (Inl BoundsError, r)
      else if currentOffset r < 0 then (Inl RangeError, r\<lparr>currentOffset := currentOffset r + 1\<rparr>)
      else if int (length (buffer r)) < currentOffset r + int N
        then (Inl RangeError, r\<lparr>currentOffset := int (length (buffer r)) + 1\<rparr>)
      else (Inr (take N (drop (nat (currentOffset r)) (buffer r))),
            r\<lparr>currentOffset := currentOffset r + int N\<rparr>))"
proof (cases N)
  case 0
  then show ?thesis by (simp add: readBytes_def rd_return_def)
next
  case (Suc k)
  let ?off = "currentOffset r"
  let ?len = "int (length (buffer r))"
  consider (outside) "?off > ?len \<or> ?off < 0" | (short) "0 \<le> ?off" "?off \<le> ?len" "?len < ?off + int N"
    | (ok) "0 \<le> ?off" "?off + int N \<le> ?len" by linarith
  then show ?thesis
  proof cases
    case outside
    then show ?thesis
      by (auto simp: readBytes_def Suc rd_bind_def readU8_eq)
  next
    case short
    have z: "False \<longrightarrow> 0 \<notin> set (drop (nat ?off) (buffer r))" by simp
    show ?thesis
      using readBytes_loop_short[OF short z, of 0 "replicate N 0"] short Suc
      by (simp add: readBytes_def)
  next
    case ok
    have z: "False \<longrightarrow> 0 \<notin> set (take N (drop (nat ?off) (buffer r)))" by simp
    have l: "0 + N \<le> length (replicate N (0::u8))" by simp
    show ?thesis
      using readBytes_loop_all[OF ok z l] ok Suc
      by (simp add: readBytes_def)
  qed
qed

lemma readAddress_loop_readBytes_loop:
  "readAddress_loop k i bytes = readBytes_loop k i False bytes"
  by (induction k arbitrary: i bytes) simp_all

lemma readAddress_readBytes: "readAddress n = readBytes n False"
  by (simp add: readAddress_def readBytes_def readAddress_loop_readBytes_loop)

lemma readBytesBE_eq:
  "readBytesBE (int k) r =
     (if k = 0 then (Inr [], r)
      else if currentOffset r > int (length (buffer r)) then (Inl BoundsError, r)
      else if currentOffset r < 0 then (Inl RangeError, r\<lparr>currentOffset := currentOffset r + 1\<rparr>)
      else if int (length (buffer r)) < currentOffset r + int k
        then (Inl RangeError, r\<lparr>currentOffset := int (length (buffer r)) + 1\<rparr>)
      else (Inr (take k (drop (nat (currentOffset r)) (buffer r))),
            r\<lparr>currentOffset := currentOffset r + int k\<rparr>))"
  unfolding readBytesBE_def by (subst readBytesBE_loop_eq) simp

lemma big_read_eq:
  assumes "\<And>r. rd r = rd_bind (verifyEnd (currentOffset r + int w)) (\<lambda>_.
             rd_bind (readBytesBE (int w)) (\<lambda>bs. rd_return (dec bs))) r"
    and "0 < w"
  shows "rd r =
     (if currentOffset r > int (length (buffer r)) then (Inl BoundsError, r)
      else if currentOffset r < 0 then (Inl RangeError, r\<lparr>currentOffset := currentOffset r + 1\<rparr>)
      else if int (length (buffer r)) < currentOffset r + int w
        then (Inl RangeError, r\<lparr>currentOffset := int (length (buffer r)) + 1\<rparr>)
      else (Inr (dec (take w (drop (nat (currentOffset r)) (buffer r)))),
            r\<lparr>currentOffset := currentOffset r + int w\<rparr>))"
  using assms(2)
  by (simp add: assms(1) rd_bind_def verifyEnd_def rd_throw_def rd_return_def readBytesBE_eq)

lemma readU256_eq:
  "readU256 r =
     (if currentOffset r > int (length (buffer r)) then (Inl BoundsError, r)
      else if currentOffset r < 0 then (Inl RangeError, r\<lparr>currentOffset := currentOffset r + 1\<rparr>)
      else if int (length (buffer r)) < currentOffset r + 32
        then (Inl RangeError, r\<lparr>currentOffset := int (length (buffer r)) + 1\<rparr>)
      else (Inr (u256_fromBytesBE (take 32 (drop (nat (currentOffset r)) (buffer r)))),
            r\<lparr>currentOffset := currentOffset r + 32\<rparr>))"
  using big_read_eq[of readU256 32 u256_fromBytesBE r] by (simp add: readU256_def)

lemma readI256_eq:
  "readI256 r =
     (if currentOffset r > int (length (buffer r)) then (Inl BoundsError, r)
      else if currentOffset r < 0 then (Inl RangeError, r\<lparr>currentOffset := currentOffset r + 1\<rparr>)
      else if int (length (buffer r)) < currentOffset r + 32
        then (Inl RangeError, r\<lparr>currentOffset := int (length (buffer r)) + 1\<rparr>)
      else (Inr (i256_fromBytesBE (take 32 (drop (nat (currentOffset r)) (buffer r)))),
            r\<lparr>currentOffset := currentOffset r + 32\<rparr>))"
  using big_read_eq[of readI256 32 i256_fromBytesBE r] by (simp add: readI256_def)

lemma readU128_eq:
  "readU128 r =
     (if currentOffset r > int (length (buffer r)) then (Inl BoundsError, r)
      else if currentOffset r < 0 then (Inl RangeError, r\<lparr>currentOffset := currentOffset r + 1\<rparr>)
      else if int (length (buffer r)) < currentOffset r + 16
        then (Inl RangeError, r\<lparr>currentOffset := int (length (buffer r)) + 1\<rparr>)
      else (Inr (u128_fromBytesBE (take 16 (drop (nat (currentOffset r)) (buffer r)))),
            r\<lparr>currentOffset := currentOffset r + 16\<rparr>))"
  using big_read_eq[of readU128 16 u128_fromBytesBE r] by (simp add: readU128_def)

lemma readI128_eq:
  "readI128 r =
     (if currentOffset r > int (length (buffer r)) then (Inl BoundsError, r)
      else if currentOffset r < 0 then (Inl RangeError, r\<lparr>currentOffset := currentOffset r + 1\<rparr>)
      else if int (length (buffer r)) < currentOffset r + 16
        then (Inl RangeError, r\<lparr>currentOffset := int (length (buffer r)) + 1\<rparr>)
      else (Inr (i128_fromBytesBE (take 16 (drop (nat (currentOffset r)) (buffer r)))),
            r\<lparr>currentOffset := currentOffset r + 16\<rparr>))"
  using big_read_eq[of readI128 16 i128_fromBytesBE r] by (simp add: readI128_def)

section \<open>The bounds check\<close>

lemma readBoolean_eq:
  "readBoolean r = (case readU8 r of (Inl e, r') \<Rightarrow> (Inl e, r') | (Inr b, r') \<Rightarrow> (Inr (b \<noteq> 0), r'))"
  by (simp add: readBoolean_def rd_bind_def rd_return_def split: prod.splits sum.splits)

text \<open>
  Claim C4: the check \<^verbatim>\<open>verifyEnd(size)\<close> compares the offset before the read with the
  buffer length and ignores \<open>size\<close> (the offset plus the requested width, which its callers
  pass). Every bounds-checked fixed-width read raises the bounds error exactly when the
  offset before the read is strictly greater than the buffer length. A read that starts
  at or before the end and needs more bytes than remain therefore passes the check (it is
  the \<^verbatim>\<open>DataView\<close> accessor that then refuses the access).
\<close>

theorem C4_bounds_check_inspects_pre_read_offset:
  "verifyEnd sz r =
     (if currentOffset r > int (length (buffer r)) then (Inl BoundsError, r) else (Inr (), r)) \<and>
   (fst (readU8 r) = Inl BoundsError) = (currentOffset r > int (length (buffer r))) \<and>
   (fst (readBoolean r) = Inl BoundsError) = (currentOffset r > int (length (buffer r))) \<and>
   (fst (readU16 r) = Inl BoundsError) = (currentOffset r > int (length (buffer r))) \<and>
   (fst (readU32 le r) = Inl BoundsError) = (currentOffset r > int (length (buffer r))) \<and>
   (fst (readSelector r) = Inl BoundsError) = (currentOffset r > int (length (buffer r))) \<and>
   (fst (readU64 r) = Inl BoundsError) = (currentOffset r > int (length (buffer r))) \<and>
   (fst (readI64 r) = Inl BoundsError) = (currentOffset r > int (length (buffer r))) \<and>
   (fst (readU128 r) = Inl BoundsError) = (currentOffset r > int (length (buffer r))) \<and>
   (fst (readI128 r) = Inl BoundsError) = (currentOffset r > int (length (buffer r))) \<and>
   (fst (readU256 r) = Inl BoundsError) = (currentOffset r > int (length (buffer r))) \<and>
   (fst (readI256 r) = Inl BoundsError) = (currentOffset r > int (length (buffer r)))"
proof (intro conjI)
  show "verifyEnd sz r =
     (if currentOffset r > int (length (buffer r)) then (Inl BoundsError, r) else (Inr (), r))"
    by (simp add: verifyEnd_def rd_throw_def rd_return_def)
  show "(fst (readU8 r) = Inl BoundsError) = (currentOffset r > int (length (buffer r)))"
    by (simp add: readU8_eq)
  show "(fst (readBoolean r) = Inl BoundsError) = (currentOffset r > int (length (buffer r)))"
    by (simp add: readBoolean_eq readU8_eq)
  show "(fst (readU16 r) = Inl BoundsError) = (currentOffset r > int (length (buffer r)))"
    by (simp add: readU16_eq)
  show "(fst (readU32 le r) = Inl BoundsError) = (currentOffset r > int (length (buffer r)))"
    by (simp add: readU32_eq)
  show "(fst (readSelector r) = Inl BoundsError) = (currentOffset r > int (length (buffer r)))"
    by (simp add: readSelector_def readU32_eq)
  show "(fst (readU64 r) = Inl BoundsError) = (currentOffset r > int (length (buffer r)))"
    by (simp add: readU64_eq)
  show "(fst (readI64 r) = Inl BoundsError) = (currentOffset r > int (length (buffer r)))"
    by (simp add: readI64_eq)
  show "(fst (readU128 r) = Inl BoundsError) = (currentOffset r > int (length (buffer r)))"
    by (simp add: readU128_eq)
  show "(fst (readI128 r) = Inl BoundsError) = (currentOffset r > int (length (buffer r)))"
    by (simp add: readI128_eq)
  show "(fst (readU256 r) = Inl BoundsError) = (currentOffset r > int (length (buffer r)))"
    by (simp add: readU256_eq)
  show "(fst (readI256 r) = Inl BoundsError) = (currentOffset r > int (length (buffer r)))"
    by (simp add: readI256_eq)
qed

section \<open>Reads respect the bounds of the buffer\<close>






























































section \<open>The offset stays within the buffer\<close>

lemma kw_return: "keeps_within (rd_return a)"
  by (simp add: keeps_within_def rd_return_def)

lemma kw_throw: "keeps_within (rd_throw e)"
  by (simp add: keeps_within_def rd_throw_def)

lemma kw_bind:
  assumes "keeps_within m" and "\<And>a. keeps_within (f a)"
  shows "keeps_within (rd_bind m f)"
  unfolding keeps_within_def
proof (intro allI impI)
  fix r b r'
  assume h: "within_buffer r \<and> rd_bind m f r = (Inr b, r')"
  obtain x r1 where m: "m r = (x, r1)" by (cases "m r")
  show "within_buffer r' \<and> buffer r' = buffer r"
  proof (cases x)
    case (Inl e)
    then show ?thesis using h m by (simp add: rd_bind_def)
  next
    case (Inr a)
    with h m have w1: "within_buffer r1 \<and> buffer r1 = buffer r"
      using assms(1) unfolding keeps_within_def by blast
    from h m Inr have "f a r1 = (Inr b, r')" by (simp add: rd_bind_def)
    with w1 have "within_buffer r' \<and> buffer r' = buffer r1"
      using assms(2)[of a] unfolding keeps_within_def by blast
    with w1 show ?thesis by simp
  qed
qed

lemma kw_readU8: "keeps_within readU8"
  by (auto simp: keeps_within_def within_buffer_def readU8_eq split: if_splits)

lemma kw_readU16: "keeps_within readU16"
  by (auto simp: keeps_within_def within_buffer_def readU16_eq split: if_splits)

lemma kw_readU32: "keeps_within (readU32 le)"
  by (auto simp: keeps_within_def within_buffer_def readU32_eq split: if_splits)

lemma kw_readU64: "keeps_within readU64"
  by (auto simp: keeps_within_def within_buffer_def readU64_eq split: if_splits)

lemma kw_readI64: "keeps_within readI64"
  by (auto simp: keeps_within_def within_buffer_def readI64_eq split: if_splits)

lemma kw_readFloat: "keeps_within readFloat"
  by (auto simp: keeps_within_def within_buffer_def readFloat_eq split: if_splits)

lemma kw_readU128: "keeps_within readU128"
  by (auto simp: keeps_within_def within_buffer_def readU128_eq split: if_splits)

lemma kw_readI128: "keeps_within readI128"
  by (auto simp: keeps_within_def within_buffer_def readI128_eq split: if_splits)

lemma kw_readU256: "keeps_within readU256"
  by (auto simp: keeps_within_def within_buffer_def readU256_eq split: if_splits)

lemma kw_readI256: "keeps_within readI256"
  by (auto simp: keeps_within_def within_buffer_def readI256_eq split: if_splits)

lemma kw_readBoolean: "keeps_within readBoolean"
  unfolding readBoolean_def by (intro kw_bind kw_readU8 kw_return)

lemma kw_readSelector: "keeps_within readSelector"
  unfolding readSelector_def by (rule kw_readU32)

lemma kw_readBytesBE_loop: "keeps_within (readBytesBE_loop k acc)"
  by (induction k arbitrary: acc) (auto intro!: kw_bind kw_readU8 kw_return)

lemma kw_readBytesBE: "keeps_within (readBytesBE count)"
  unfolding readBytesBE_def by (rule kw_readBytesBE_loop)

lemma kw_readBytes_loop: "keeps_within (readBytes_loop k i zeroStop bytes)"
  by (induction k arbitrary: i bytes) (auto intro!: kw_bind kw_readU8 kw_return)

lemma kw_readBytes: "keeps_within (readBytes len zeroStop)"
  unfolding readBytes_def by (rule kw_readBytes_loop)

lemma kw_readBytesWithLength: "keeps_within readBytesWithLength"
  unfolding readBytesWithLength_def by (intro kw_bind kw_readU32 kw_readBytes)

lemma kw_readString: "keeps_within (readString len)"
  unfolding readString_def by (intro kw_bind kw_readBytes kw_return)

lemma kw_readStringWithLength: "keeps_within readStringWithLength"
  unfolding readStringWithLength_def by (intro kw_bind kw_readU16 kw_readString)

lemma kw_readAddress: "keeps_within (readAddress n)"
  unfolding readAddress_readBytes by (rule kw_readBytes)

lemma kw_readAddressArray_loop: "keeps_within (readAddressArray_loop k n result)"
  by (induction k arbitrary: result) (auto intro!: kw_bind kw_readAddress kw_return)

lemma kw_readAddressArray: "keeps_within (readAddressArray n)"
  unfolding readAddressArray_def by (intro kw_bind kw_readU16 kw_readAddressArray_loop)

lemma kw_readTuple_loop: "keeps_within (readTuple_loop k result)"
  by (induction k arbitrary: result) (auto intro!: kw_bind kw_readU256 kw_return)

lemma kw_readTuple: "keeps_within readTuple"
  unfolding readTuple_def by (intro kw_bind kw_readU32 kw_readTuple_loop)

lemma kw_readAddressValueTuple_loop: "keeps_within (readAddressValueTuple_loop k n result)"
  by (induction k arbitrary: result)
    (auto intro!: kw_bind kw_readAddress kw_readU256 kw_return kw_throw)

lemma kw_readAddressValueTuple: "keeps_within (readAddressValueTuple n)"
  unfolding readAddressValueTuple_def
  by (intro kw_bind kw_readU16 kw_readAddressValueTuple_loop)

lemma kw_readCalls_loop: "keeps_within (readCalls_loop k calls)"
  by (induction k arbitrary: calls) (auto intro!: kw_bind kw_readBytesWithLength kw_return)

lemma kw_readMultiBytesAddressMap_loop: "keeps_within (readMultiBytesAddressMap_loop k n m)"
  by (induction k arbitrary: m)
    (auto intro!: kw_bind kw_readAddress kw_readU8 kw_readCalls_loop kw_return kw_throw)

lemma kw_readMultiBytesAddressMap: "keeps_within (readMultiBytesAddressMap n)"
  unfolding readMultiBytesAddressMap_def
  by (auto intro!: kw_bind kw_readU8 kw_readMultiBytesAddressMap_loop kw_throw)

lemma kw_readTransactionInputs_loop: "keeps_within (readTransactionInputs_loop k result)"
  by (induction k arbitrary: result)
    (auto intro!: kw_bind kw_readBytes kw_readU8 kw_readBytesWithLength kw_return)

lemma kw_readTransactionInputs: "keeps_within readTransactionInputs"
  unfolding readTransactionInputs_def by (intro kw_bind kw_readU8 kw_readTransactionInputs_loop)

lemma kw_readTransactionOutputs_loop: "keeps_within (readTransactionOutputs_loop k result)"
  by (induction k arbitrary: result)
    (auto intro!: kw_bind kw_readU64 kw_readU8 kw_readBytesWithLength kw_return)

lemma kw_readTransactionOutputs: "keeps_within readTransactionOutputs"
  unfolding readTransactionOutputs_def by (intro kw_bind kw_readU8 kw_readTransactionOutputs_loop)

text \<open>
  Claim C3, as the code has it. Every read keeps the offset within the buffer: started with
  \<open>0 \<le> offset \<le> length\<close>, a completed read leaves the offset in that range and the
  bytes unchanged. A failing read leaves the reader unchanged when it is one of the
  single-access reads (\<^verbatim>\<open>readU16\<close>, \<^verbatim>\<open>readU32\<close>, \<^verbatim>\<open>readSelector\<close>, \<^verbatim>\<open>readU64\<close>,
  \<^verbatim>\<open>readI64\<close>, \<^verbatim>\<open>readFloat\<close>), or when a bounds-checked read fails with the bounds error.
\<close>

theorem C3_offset_invariant:
  "keeps_within readU8 \<and> keeps_within readU16 \<and> keeps_within (readU32 le) \<and>
   keeps_within readU64 \<and> keeps_within readU256 \<and> keeps_within (readBytesBE count) \<and>
   keeps_within readI64 \<and> keeps_within readU128 \<and> keeps_within readI128 \<and>
   keeps_within (readBytes len zeroStop) \<and>
   keeps_within (readMultiBytesAddressMap ADDRESS_BYTE_LENGTH) \<and>
   keeps_within readBytesWithLength \<and> keeps_within (readString slen) \<and>
   keeps_within readTransactionInputs \<and> keeps_within readTransactionOutputs \<and>
   keeps_within readI256 \<and> keeps_within readTuple \<and>
   keeps_within (readAddressValueTuple ADDRESS_BYTE_LENGTH) \<and>
   keeps_within readSelector \<and> keeps_within readStringWithLength \<and>
   keeps_within readBoolean \<and> keeps_within readFloat \<and>
   keeps_within (readAddress ADDRESS_BYTE_LENGTH) \<and>
   keeps_within (readAddressArray ADDRESS_BYTE_LENGTH) \<and>
   fails_clean readU16 \<and> fails_clean (readU32 le) \<and> fails_clean readSelector \<and>
   fails_clean readU64 \<and> fails_clean readI64 \<and> fails_clean readFloat \<and>
   bounds_error_clean readU8 \<and> bounds_error_clean readBoolean \<and>
   bounds_error_clean readU128 \<and> bounds_error_clean readI128 \<and>
   bounds_error_clean readU256 \<and> bounds_error_clean readI256"
proof -
  have f1: "fails_clean readU16"
    by (auto simp: fails_clean_def readU16_eq split: if_splits)
  have f2: "fails_clean (readU32 le)"
    by (auto simp: fails_clean_def readU32_eq split: if_splits)
  have f3: "fails_clean readSelector"
    by (auto simp: fails_clean_def readSelector_def readU32_eq split: if_splits)
  have f4: "fails_clean readU64"
    by (auto simp: fails_clean_def readU64_eq split: if_splits)
  have f5: "fails_clean readI64"
    by (auto simp: fails_clean_def readI64_eq split: if_splits)
  have f6: "fails_clean readFloat"
    by (auto simp: fails_clean_def readFloat_eq split: if_splits)
  have b1: "bounds_error_clean readU8"
    by (auto simp: bounds_error_clean_def readU8_eq split: if_splits)
  have b2: "bounds_error_clean readBoolean"
    by (auto simp: bounds_error_clean_def readBoolean_eq readU8_eq split: if_splits)
  have b3: "bounds_error_clean readU128"
    by (auto simp: bounds_error_clean_def readU128_eq split: if_splits)
  have b4: "bounds_error_clean readI128"
    by (auto simp: bounds_error_clean_def readI128_eq split: if_splits)
  have b5: "bounds_error_clean readU256"
    by (auto simp: bounds_error_clean_def readU256_eq split: if_splits)
  have b6: "bounds_error_clean readI256"
    by (auto simp: bounds_error_clean_def readI256_eq split: if_splits)
  show ?thesis
    by (intro conjI kw_readU8 kw_readU16 kw_readU32 kw_readU64 kw_readU256 kw_readBytesBE
        kw_readI64 kw_readU128 kw_readI128 kw_readBytes kw_readMultiBytesAddressMap
        kw_readBytesWithLength kw_readString kw_readTransactionInputs kw_readTransactionOutputs
        kw_readI256 kw_readTuple kw_readAddressValueTuple kw_readSelector kw_readStringWithLength
        kw_readBoolean kw_readFloat kw_readAddress kw_readAddressArray
        f1 f2 f3 f4 f5 f6 b1 b2 b3 b4 b5 b6)
qed

text \<open>
  The theorem over the buffer \<open>[1,2,3]\<close>: \<^verbatim>\<open>readU16\<close> at offset 1 completes within the
  buffer; \<^verbatim>\<open>readU16\<close> at offset 2 fails and leaves the reader unchanged; \<^verbatim>\<open>readU8\<close> at
  offset 4 fails with the bounds error and leaves the reader unchanged.
\<close>

theorem C3_offset_invariant_witness:
  "within_buffer (snd (readU16 \<lparr>buffer = [1, 2, 3], currentOffset = 1\<rparr>)) \<and>
   snd (readU16 \<lparr>buffer = [1, 2, 3], currentOffset = 2\<rparr>) = \<lparr>buffer = [1, 2, 3], currentOffset = 2\<rparr> \<and>
   snd (readU8 \<lparr>buffer = [1, 2, 3], currentOffset = 4\<rparr>) = \<lparr>buffer = [1, 2, 3], currentOffset = 4\<rparr>"
proof -
  let ?r1 = "\<lparr>buffer = [1, 2, 3], currentOffset = 1\<rparr>"
  let ?r2 = "\<lparr>buffer = [1, 2, 3], currentOffset = 2\<rparr>"
  let ?r4 = "\<lparr>buffer = [1, 2, 3], currentOffset = 4\<rparr>"
  note c = C3_offset_invariant[of True 0 0 False 0 0]
  from c have k: "keeps_within readU16" and f: "fails_clean readU16"
    and b: "bounds_error_clean readU8" by simp_all
  have w1: "within_buffer ?r1" by (simp add: within_buffer_def)
  have e1: "readU16 ?r1 = (Inr (of_nat (le_nat [2, 3])), ?r1\<lparr>currentOffset := 3\<rparr>)"
    by (simp add: readU16_eq)
  have e2: "readU16 ?r2 = (Inl RangeError, snd (readU16 ?r2))"
    by (simp add: readU16_eq)
  have e4: "readU8 ?r4 = (Inl BoundsError, snd (readU8 ?r4))"
    by (simp add: readU8_eq)
  from k w1 e1 have "within_buffer (?r1\<lparr>currentOffset := 3\<rparr>)"
    unfolding keeps_within_def by blast
  with e1 have g1: "within_buffer (snd (readU16 ?r1))" by simp
  from f e2 have g2: "snd (readU16 ?r2) = ?r2" unfolding fails_clean_def by blast
  from b e4 have g4: "snd (readU8 ?r4) = ?r4" unfolding bounds_error_clean_def by blast
  from g1 g2 g4 show ?thesis by simp
qed

text \<open>
  Claim C3 on the code: \<^verbatim>\<open>readBytesBE(2)\<close> over the one-byte buffer \<open>[7]\<close> consumes the
  byte, fails on the second, and leaves the offset at 2: not the offset before the read,
  and beyond the buffer length. \<^verbatim>\<open>readU8\<close> at the end of the buffer likewise fails with
  the offset already incremented.
\<close>

theorem C3_failing_read_counterexample:
  "readBytesBE 2 \<lparr>buffer = [7], currentOffset = 0\<rparr> =
     (Inl RangeError, \<lparr>buffer = [7], currentOffset = 2\<rparr>) \<and>
   currentOffset (snd (readBytesBE 2 \<lparr>buffer = [7], currentOffset = 0\<rparr>))
     \<noteq> currentOffset \<lparr>buffer = [7], currentOffset = 0\<rparr> \<and>
   readU8 \<lparr>buffer = [7], currentOffset = 1\<rparr> =
     (Inl RangeError, \<lparr>buffer = [7], currentOffset = 2\<rparr>)"
  using readBytesBE_eq[of 2 "\<lparr>buffer = [7], currentOffset = 0\<rparr>"]
  by (simp add: readU8_eq)

section \<open>Reading a known stretch of bytes\<close>

lemma chunk_take:
  assumes "buffer r = pre @ x @ post" and "currentOffset r = int (length pre)"
  shows "take (length x) (drop (nat (currentOffset r)) (buffer r)) = x"
  using assms by simp

lemma readBytes_at:
  assumes "buffer r = pre @ x @ post" and "currentOffset r = int (length pre)"
  shows "readBytes (length x) False r =
           (Inr x, r\<lparr>currentOffset := int (length pre) + int (length x)\<rparr>)"
  using assms by (simp add: readBytes_eq)

lemma readAddress_at:
  assumes "buffer r = pre @ x @ post" and "currentOffset r = int (length pre)"
  shows "readAddress (length x) r =
           (Inr x, r\<lparr>currentOffset := int (length pre) + int (length x)\<rparr>)"
  unfolding readAddress_readBytes using assms by (rule readBytes_at)

lemma readU256_at:
  assumes "buffer r = pre @ x @ post" and "currentOffset r = int (length pre)"
    and "length x = 32"
  shows "readU256 r =
           (Inr (u256_fromBytesBE x), r\<lparr>currentOffset := int (length pre) + 32\<rparr>)"
proof -
  have "take 32 (drop (nat (currentOffset r)) (buffer r)) = x"
    using chunk_take[OF assms(1,2)] assms(3) by simp
  then show ?thesis using assms by (simp add: readU256_eq)
qed

lemma readU8_at:
  assumes "buffer r = pre @ b # post" and "currentOffset r = int (length pre)"
  shows "readU8 r = (Inr b, r\<lparr>currentOffset := int (length pre) + 1\<rparr>)"
  using assms by (simp add: readU8_eq)

lemma le_nat_wire_u16: "k < 65536 \<Longrightarrow> le_nat (wire_u16 k) = k"
  by (simp add: le_nat_def wire_u16_def unat_of_nat)

lemma readU16_at:
  assumes "buffer r = pre @ wire_u16 k @ post" and "currentOffset r = int (length pre)"
    and "k < 65536"
  shows "readU16 r = (Inr (of_nat k), r\<lparr>currentOffset := int (length pre) + 2\<rparr>)"
proof -
  have l: "length (wire_u16 k) = 2" by (simp add: wire_u16_def)
  have "take 2 (drop (nat (currentOffset r)) (buffer r)) = wire_u16 k"
    using chunk_take[OF assms(1,2)] l by simp
  then show ?thesis using assms l by (simp add: readU16_eq le_nat_wire_u16)
qed

lemma split_bytes4:
  fixes k :: nat
  shows "k mod 256 + (256 * (k div 256 mod 256) +
           (65536 * (k div 65536 mod 256) + 16777216 * (k div 16777216))) = k"
proof -
  define a where "a = k div 256"
  define b where "b = a div 256"
  define c where "c = b div 256"
  have 1: "k div 65536 = b" unfolding a_def b_def by (simp add: div_mult2_eq[symmetric])
  have 2: "k div 16777216 = c" unfolding a_def b_def c_def by (simp add: div_mult2_eq[symmetric])
  have k: "k = k mod 256 + 256 * a" unfolding a_def by simp
  have a: "a = a mod 256 + 256 * b" unfolding b_def by simp
  have b: "b = b mod 256 + 256 * c" unfolding c_def by simp
  have "k mod 256 + (256 * (a mod 256) + (65536 * (b mod 256) + 16777216 * c)) = k"
    using k a b by linarith
  then show ?thesis unfolding 1 2 a_def[symmetric] .
qed

lemma le_nat_wire_u32: "k < 4294967296 \<Longrightarrow> le_nat (wire_u32 k) = k"
  using split_bytes4[of k] by (simp add: le_nat_def wire_u32_def unat_of_nat)

lemma readU32_at:
  assumes "buffer r = pre @ wire_u32 k @ post" and "currentOffset r = int (length pre)"
    and "k < 4294967296"
  shows "readU32 True r = (Inr (of_nat k), r\<lparr>currentOffset := int (length pre) + 4\<rparr>)"
proof -
  have l: "length (wire_u32 k) = 4" by (simp add: wire_u32_def)
  have "take 4 (drop (nat (currentOffset r)) (buffer r)) = wire_u32 k"
    using chunk_take[OF assms(1,2)] l by simp
  then show ?thesis using assms l by (simp add: readU32_eq le_nat_wire_u32)
qed


section \<open>Decoding an address-to-u256 map\<close>

lemma readAddressValueTuple_loop_at:
  assumes "\<forall>p\<in>set ps. length (fst p) = n \<and> length (snd p) = 32"
    and "buffer r = pre @ concat (map wire_pair ps) @ post"
    and "currentOffset r = int (length pre)"
  shows "(distinct (map fst ps) \<and> (\<forall>p\<in>set ps. result (fst p) = None) \<longrightarrow>
            readAddressValueTuple_loop (length ps) n result r =
              (Inr (result ++ map_of (map (\<lambda>p. (fst p, u256_fromBytesBE (snd p))) ps)),
               r\<lparr>currentOffset := int (length pre) + int (length (concat (map wire_pair ps)))\<rparr>)) \<and>
         (\<not> (distinct (map fst ps) \<and> (\<forall>p\<in>set ps. result (fst p) = None)) \<longrightarrow>
            fst (readAddressValueTuple_loop (length ps) n result r) =
              Inl (Revert ''Duplicate address found in map''))"
  using assms
proof (induction ps arbitrary: pre result r)
  case Nil
  then show ?case by (simp add: rd_return_def)
next
  case (Cons p ps)
  obtain a v where p: "p = (a, v)" by (cases p)
  have la: "length a = n" and lv: "length v = 32" using Cons.prems(1) p by auto
  let ?rest = "concat (map wire_pair ps)"
  let ?r1 = "r\<lparr>currentOffset := int (length pre) + int (length a)\<rparr>"
  let ?r2 = "r\<lparr>currentOffset := int (length (pre @ a @ v))\<rparr>"
  have wp: "wire_pair (a, v) = a @ v" by (simp add: wire_pair_def)
  have b0: "buffer r = pre @ a @ (v @ ?rest @ post)"
    using Cons.prems(2) p by (simp add: wp)
  have ra: "readAddress n r = (Inr a, ?r1)"
    using readAddress_at[OF b0 Cons.prems(3)] la by simp
  have b1: "buffer ?r1 = (pre @ a) @ v @ (?rest @ post)" using b0 by simp
  have o1: "currentOffset ?r1 = int (length (pre @ a))" by simp
  have rv: "readU256 ?r1 = (Inr (u256_fromBytesBE v), ?r2)"
    using readU256_at[OF b1 o1 lv] lv by simp
  have step: "readAddressValueTuple_loop (Suc (length ps)) n result r =
      (if result a \<noteq> None then (Inl (Revert ''Duplicate address found in map''), ?r2)
       else readAddressValueTuple_loop (length ps) n (result(a \<mapsto> u256_fromBytesBE v)) ?r2)"
    by (simp add: rd_bind_def ra rv AddressMap_has_def AddressMap_set_def rd_throw_def)
  let ?dec = "\<lambda>ps. map (\<lambda>p. (fst p, u256_fromBytesBE (snd p))) ps"
  let ?C = "distinct (map fst (p # ps)) \<and> (\<forall>q\<in>set (p # ps). result (fst q) = None)"
  let ?err = "Inl (Revert ''Duplicate address found in map'') :: error + u256 AddressMap"
  show ?case
  proof (cases "result a = None")
    case False
    then have nC: "\<not> ?C" using p by auto
    have "fst (readAddressValueTuple_loop (Suc (length ps)) n result r) = ?err"
      using False by (simp add: step del: readAddressValueTuple_loop.simps)
    then have "fst (readAddressValueTuple_loop (length (p # ps)) n result r) = ?err" by simp
    then show ?thesis using nC by blast
  next
    case True
    let ?res' = "result(a \<mapsto> u256_fromBytesBE v)"
    let ?C' = "distinct (map fst ps) \<and> (\<forall>q\<in>set ps. ?res' (fst q) = None)"
    have l': "\<forall>p\<in>set ps. length (fst p) = n \<and> length (snd p) = 32" using Cons.prems(1) by simp
    have b2: "buffer ?r2 = (pre @ a @ v) @ ?rest @ post" using b0 by simp
    have o2: "currentOffset ?r2 = int (length (pre @ a @ v))" by simp
    note IH = Cons.IH[OF l' b2 o2, of ?res']
    have step': "readAddressValueTuple_loop (length (p # ps)) n result r =
                 readAddressValueTuple_loop (length ps) n ?res' ?r2"
      using True step by (simp del: readAddressValueTuple_loop.simps)
    have cond: "?C = ?C'"
      using True p by (auto simp: image_iff)
    show ?thesis
    proof (cases ?C')
      case no: False
      then have "fst (readAddressValueTuple_loop (length ps) n ?res' ?r2) = ?err"
        using IH by blast
      then have "fst (readAddressValueTuple_loop (length (p # ps)) n result r) = ?err"
        by (simp only: step')
      moreover have "\<not> ?C" using no cond by blast
      ultimately show ?thesis by blast
    next
      case yes: True
      then have fresh: "a \<notin> dom (map_of (?dec ps))"
        by (auto simp: dom_map_of_conv_image_fst image_iff)
      have m: "?res' ++ map_of (?dec ps) = result ++ map_of (?dec (p # ps))"
        using map_add_upd_left[OF fresh] p by simp
      have len: "int (length (pre @ a @ v)) + int (length ?rest) =
                 int (length pre) + int (length (concat (map wire_pair (p # ps))))"
        using p by (simp add: wp)
      have "readAddressValueTuple_loop (length ps) n ?res' ?r2 =
              (Inr (?res' ++ map_of (?dec ps)),
               ?r2\<lparr>currentOffset := int (length (pre @ a @ v)) + int (length ?rest)\<rparr>)"
        using IH yes by blast
      then have "readAddressValueTuple_loop (length (p # ps)) n result r =
              (Inr (result ++ map_of (?dec (p # ps))),
               r\<lparr>currentOffset := int (length pre) + int (length (concat (map wire_pair (p # ps))))\<rparr>)"
        unfolding m len step' by simp
      moreover have ?C using yes cond by blast
      ultimately show ?thesis by blast
    qed
  qed
qed

text \<open>
  Claim C6: on a byte sequence that encodes an address-to-u256 map (a \<^verbatim>\<open>u16\<close> count, then
  that many pairs of an address and 32 value bytes), \<^verbatim>\<open>readAddressValueTuple\<close> fails with
  \<^verbatim>\<open>Revert('Duplicate address found in map')\<close> when an address occurs in two pairs, and
  returns the map of all decoded pairs, with the offset after the last pair, when the
  addresses are distinct.
\<close>

theorem C6_readAddressValueTuple_rejects_duplicates:
  assumes "length ps < 65536"
    and "\<forall>p\<in>set ps. length (fst p) = ADDRESS_BYTE_LENGTH \<and> length (snd p) = 32"
    and "buffer r = pre @ wire_address_value_map ps @ post"
    and "currentOffset r = int (length pre)"
  shows "(distinct (map fst ps) \<longrightarrow>
            readAddressValueTuple ADDRESS_BYTE_LENGTH r =
              (Inr (map_of (map (\<lambda>p. (fst p, u256_fromBytesBE (snd p))) ps)),
               r\<lparr>currentOffset := currentOffset r + int (length (wire_address_value_map ps))\<rparr>)) \<and>
         (\<not> distinct (map fst ps) \<longrightarrow>
            fst (readAddressValueTuple ADDRESS_BYTE_LENGTH r) =
              Inl (Revert ''Duplicate address found in map''))"
proof -
  let ?body = "concat (map wire_pair ps)"
  let ?r1 = "r\<lparr>currentOffset := int (length pre) + 2\<rparr>"
  have b0: "buffer r = pre @ wire_u16 (length ps) @ (?body @ post)"
    using assms(3) by (simp add: wire_address_value_map_def)
  have r16: "readU16 r = (Inr (of_nat (length ps)), ?r1)"
    using readU16_at[OF b0 assms(4) assms(1)] .
  have u: "unat (of_nat (length ps) :: u16) = length ps"
    using assms(1) by (simp add: unat_of_nat)
  have b1: "buffer ?r1 = (pre @ wire_u16 (length ps)) @ ?body @ post" using b0 by simp
  have o1: "currentOffset ?r1 = int (length (pre @ wire_u16 (length ps)))"
    by (simp add: wire_u16_def)
  have eq: "readAddressValueTuple ADDRESS_BYTE_LENGTH r =
            readAddressValueTuple_loop (length ps) ADDRESS_BYTE_LENGTH Map.empty ?r1"
    by (simp add: readAddressValueTuple_def rd_bind_def r16 u)
  note L = readAddressValueTuple_loop_at[OF assms(2) b1 o1, of Map.empty]
  have len: "int (length (pre @ wire_u16 (length ps))) + int (length ?body) =
             currentOffset r + int (length (wire_address_value_map ps))"
    using assms(4) by (simp add: wire_address_value_map_def)
  show ?thesis
  proof (cases "distinct (map fst ps)")
    case True
    then have "readAddressValueTuple_loop (length ps) ADDRESS_BYTE_LENGTH Map.empty ?r1 =
       (Inr (Map.empty ++ map_of (map (\<lambda>p. (fst p, u256_fromBytesBE (snd p))) ps)),
        ?r1\<lparr>currentOffset := int (length (pre @ wire_u16 (length ps))) + int (length ?body)\<rparr>)"
      using L by simp
    then show ?thesis using True unfolding eq len by simp
  next
    case False
    then show ?thesis using L unfolding eq by simp
  qed
qed

text \<open>
  The theorem for 2-byte addresses: two pairs with the address \<open>[1,2]\<close> are rejected; the
  pairs for \<open>[1,2]\<close> and \<open>[1,3]\<close> decode to the map of both.
\<close>

theorem C6_readAddressValueTuple_rejects_duplicates_witness:
  "fst (readAddressValueTuple 2
      \<lparr>buffer = [2, 0] @ ([1, 2] @ replicate 32 7) @ ([1, 2] @ replicate 32 9), currentOffset = 0\<rparr>)
     = Inl (Revert ''Duplicate address found in map'') \<and>
   fst (readAddressValueTuple 2
      \<lparr>buffer = [2, 0] @ ([1, 2] @ replicate 32 7) @ ([1, 3] @ replicate 32 9), currentOffset = 0\<rparr>)
     = Inr (map_of [([1, 2], u256_fromBytesBE (replicate 32 7)), ([1, 3], u256_fromBytesBE (replicate 32 9))])"
  using C6_readAddressValueTuple_rejects_duplicates
    [of "[([1, 2], replicate 32 7), ([1, 2], replicate 32 9)]" 2
        "\<lparr>buffer = [2, 0] @ ([1, 2] @ replicate 32 7) @ ([1, 2] @ replicate 32 9), currentOffset = 0\<rparr>"
        "[]" "[]"]
    C6_readAddressValueTuple_rejects_duplicates
    [of "[([1, 2], replicate 32 7), ([1, 3], replicate 32 9)]" 2
        "\<lparr>buffer = [2, 0] @ ([1, 2] @ replicate 32 7) @ ([1, 3] @ replicate 32 9), currentOffset = 0\<rparr>"
        "[]" "[]"]
  by (simp add: wire_address_value_map_def wire_u16_def wire_pair_def)


section \<open>Decoding a call batch\<close>

lemma readBytesWithLength_at:
  assumes "buffer r = pre @ wire_blob b @ post" and "currentOffset r = int (length pre)"
    and "length b < 4294967296"
  shows "readBytesWithLength r =
           (Inr b, r\<lparr>currentOffset := int (length pre) + int (length (wire_blob b))\<rparr>)"
proof -
  let ?r1 = "r\<lparr>currentOffset := int (length pre) + 4\<rparr>"
  have b0: "buffer r = pre @ wire_u32 (length b) @ (b @ post)"
    using assms(1) by (simp add: wire_blob_def)
  have r32: "readU32 True r = (Inr (of_nat (length b)), ?r1)"
    using readU32_at[OF b0 assms(2,3)] .
  have u: "unat (of_nat (length b) :: u32) = length b"
    using assms(3) by (simp add: unat_of_nat)
  have b1: "buffer ?r1 = (pre @ wire_u32 (length b)) @ b @ post" using b0 by simp
  have o1: "currentOffset ?r1 = int (length (pre @ wire_u32 (length b)))"
    by (simp add: wire_u32_def)
  have rb: "readBytes (length b) False ?r1 =
      (Inr b, ?r1\<lparr>currentOffset := int (length (pre @ wire_u32 (length b))) + int (length b)\<rparr>)"
    using readBytes_at[OF b1 o1] .
  show ?thesis
    by (simp add: readBytesWithLength_def rd_bind_def r32 u rb) (simp add: wire_blob_def wire_u32_def)
qed

lemma readCalls_loop_at:
  assumes "\<forall>b\<in>set bs. length b < 4294967296"
    and "buffer r = pre @ concat (map wire_blob bs) @ post"
    and "currentOffset r = int (length pre)"
  shows "readCalls_loop (length bs) calls r =
           (Inr (calls @ bs),
            r\<lparr>currentOffset := int (length pre) + int (length (concat (map wire_blob bs)))\<rparr>)"
  using assms
proof (induction bs arbitrary: pre calls r)
  case Nil
  then show ?case by (simp add: rd_return_def)
next
  case (Cons b bs)
  let ?rest = "concat (map wire_blob bs)"
  let ?r1 = "r\<lparr>currentOffset := int (length pre) + int (length (wire_blob b))\<rparr>"
  have lb: "length b < 4294967296" using Cons.prems(1) by simp
  have b0: "buffer r = pre @ wire_blob b @ (?rest @ post)" using Cons.prems(2) by simp
  have rb: "readBytesWithLength r = (Inr b, ?r1)"
    using readBytesWithLength_at[OF b0 Cons.prems(3) lb] .
  have l': "\<forall>b\<in>set bs. length b < 4294967296" using Cons.prems(1) by simp
  have b1: "buffer ?r1 = (pre @ wire_blob b) @ ?rest @ post" using b0 by simp
  have o1: "currentOffset ?r1 = int (length (pre @ wire_blob b))" by simp
  show ?case
    using Cons.IH[OF l' b1 o1, of "calls @ [b]"]
    by (simp add: rd_bind_def rb add.assoc)
qed

lemma u8_not_gt: "k \<le> c \<Longrightarrow> c < 256 \<Longrightarrow> \<not> (of_nat k :: u8) > of_nat c"
  by (simp add: word_less_nat_alt unat_of_nat)

lemma readMultiBytesAddressMap_loop_at:
  assumes "\<forall>e\<in>set es. length (fst e) = n \<and> length (snd e) \<le> 10 \<and>
             (\<forall>b\<in>set (snd e). length b < 4294967296)"
    and "buffer r = pre @ concat (map wire_calls es) @ post"
    and "currentOffset r = int (length pre)"
  shows "readMultiBytesAddressMap_loop (length es) n m r =
           (Inr (m ++ map_of (rev es)),
            r\<lparr>currentOffset := int (length pre) + int (length (concat (map wire_calls es)))\<rparr>)"
  using assms
proof (induction es arbitrary: pre m r)
  case Nil
  then show ?case by (simp add: rd_return_def)
next
  case (Cons e es)
  obtain a bs where e: "e = (a, bs)" by (cases e)
  have la: "length a = n" and lbs: "length bs \<le> 10"
    and lb: "\<forall>b\<in>set bs. length b < 4294967296"
    using Cons.prems(1) e by auto
  let ?rest = "concat (map wire_calls es)"
  let ?blobs = "concat (map wire_blob bs)"
  let ?r1 = "r\<lparr>currentOffset := int (length pre) + int (length a)\<rparr>"
  let ?r2 = "r\<lparr>currentOffset := int (length (pre @ a)) + 1\<rparr>"
  let ?r3 = "r\<lparr>currentOffset := int (length (pre @ a @ [of_nat (length bs)])) + int (length ?blobs)\<rparr>"
  have wc: "wire_calls (a, bs) = a @ [of_nat (length bs)] @ ?blobs"
    by (simp add: wire_calls_def)
  have b0: "buffer r = pre @ a @ ([of_nat (length bs)] @ ?blobs @ ?rest @ post)"
    using Cons.prems(2) e by (simp add: wc)
  have ra: "readAddress n r = (Inr a, ?r1)"
    using readAddress_at[OF b0 Cons.prems(3)] la by simp
  have b1: "buffer ?r1 = (pre @ a) @ of_nat (length bs) # (?blobs @ ?rest @ post)"
    using b0 by simp
  have o1: "currentOffset ?r1 = int (length (pre @ a))" by simp
  have r8: "readU8 ?r1 = (Inr (of_nat (length bs)), ?r2)"
    using readU8_at[OF b1 o1] by simp
  have u: "unat (of_nat (length bs) :: u8) = length bs"
    using lbs by (simp add: unat_of_nat)
  have ng: "\<not> (of_nat (length bs) :: u8) > 10"
    using u8_not_gt[of "length bs" 10] lbs by simp
  have b2: "buffer ?r2 = (pre @ a @ [of_nat (length bs)]) @ ?blobs @ (?rest @ post)"
    using b0 by simp
  have o2: "currentOffset ?r2 = int (length (pre @ a @ [of_nat (length bs)]))" by simp
  have rc: "readCalls_loop (length bs) [] ?r2 = (Inr bs, ?r3)"
    using readCalls_loop_at[OF lb b2 o2, of "[]"] by simp
  have step: "readMultiBytesAddressMap_loop (Suc (length es)) n m r =
              readMultiBytesAddressMap_loop (length es) n (m(a \<mapsto> bs)) ?r3"
    using ra r8 rc by (simp add: rd_bind_def u ng AddressMap_set_def)
  have l': "\<forall>e\<in>set es. length (fst e) = n \<and> length (snd e) \<le> 10 \<and>
             (\<forall>b\<in>set (snd e). length b < 4294967296)"
    using Cons.prems(1) by simp
  have b3: "buffer ?r3 = (pre @ wire_calls (a, bs)) @ ?rest @ post"
    using b0 by (simp add: wc)
  have o3: "currentOffset ?r3 = int (length (pre @ wire_calls (a, bs)))"
    by (simp add: wc)
  note IH = Cons.IH[OF l' b3 o3, of "m(a \<mapsto> bs)"]
  have mm: "m(a \<mapsto> bs) ++ map_of (rev es) = m ++ map_of (rev (e # es))"
    using e by simp
  have len: "int (length (pre @ wire_calls (a, bs))) + int (length ?rest) =
             int (length pre) + int (length (concat (map wire_calls (e # es))))"
    using e by simp
  have "readMultiBytesAddressMap_loop (length (e # es)) n m r =
          readMultiBytesAddressMap_loop (length es) n (m(a \<mapsto> bs)) ?r3"
    using step by (simp del: readMultiBytesAddressMap_loop.simps)
  also have "\<dots> = (Inr (m(a \<mapsto> bs) ++ map_of (rev es)),
            ?r3\<lparr>currentOffset := int (length (pre @ wire_calls (a, bs))) + int (length ?rest)\<rparr>)"
    using IH .
  also have "\<dots> = (Inr (m ++ map_of (rev (e # es))),
            r\<lparr>currentOffset := int (length pre) + int (length (concat (map wire_calls (e # es))))\<rparr>)"
    unfolding mm len by simp
  finally show ?case .
qed

lemma map_of_rev_last_occurrence:
  assumes "j < length es"
    and "\<forall>k. j < k \<and> k < length es \<longrightarrow> fst (es ! k) \<noteq> fst (es ! j)"
  shows "map_of (rev es) (fst (es ! j)) = Some (snd (es ! j))"
proof -
  let ?a = "fst (es ! j)"
  have es: "es = take j es @ es ! j # drop (Suc j) es"
    using assms(1) by (rule id_take_nth_drop)
  have nd: "?a \<notin> fst ` set (drop (Suc j) es)"
  proof
    assume "?a \<in> fst ` set (drop (Suc j) es)"
    then obtain q where q: "q \<in> set (drop (Suc j) es)" "fst q = ?a" by auto
    then obtain i where i: "i < length (drop (Suc j) es)" "drop (Suc j) es ! i = q"
      by (auto simp: in_set_conv_nth)
    then have "es ! (Suc j + i) = q" "Suc j + i < length es" by auto
    then show False using assms(2) q(2) by (metis less_add_Suc1 add_Suc)
  qed
  then have none: "map_of (rev (drop (Suc j) es)) ?a = None"
    by (simp add: map_of_eq_None_iff)
  have "map_of (rev es) = (map_of (rev (take j es)) ++ map_of [es ! j]) ++ map_of (rev (drop (Suc j) es))"
    by (subst es) (simp del: append_take_drop_id)
  then show ?thesis using none by (simp add: map_add_def)
qed


text \<open>
  Claim C9: on a byte sequence that encodes a call batch within the caps (at most 8
  entries, at most 10 blobs per entry), \<^verbatim>\<open>readMultiBytesAddressMap\<close> succeeds whether or
  not an address repeats, and the map it returns binds every address to the blob list of
  its last entry: when the address of entry \<open>i\<close> occurs again at a later entry \<open>j\<close> (and
  not after \<open>j\<close>), the map binds it to the blobs of entry \<open>j\<close>.
\<close>

theorem C9_readMultiBytesAddressMap_later_entry_wins:
  assumes "length es \<le> 8"
    and "\<forall>e\<in>set es. length (fst e) = ADDRESS_BYTE_LENGTH \<and> length (snd e) \<le> 10 \<and>
           (\<forall>b\<in>set (snd e). length b < 4294967296)"
    and "buffer r = pre @ wire_call_batch es @ post"
    and "currentOffset r = int (length pre)"
  shows "readMultiBytesAddressMap ADDRESS_BYTE_LENGTH r =
           (Inr (map_of (rev es)),
            r\<lparr>currentOffset := currentOffset r + int (length (wire_call_batch es))\<rparr>) \<and>
         (\<forall>i j. i < j \<and> j < length es \<and> fst (es ! i) = fst (es ! j) \<and>
                (\<forall>k. j < k \<and> k < length es \<longrightarrow> fst (es ! k) \<noteq> fst (es ! j)) \<longrightarrow>
                map_of (rev es) (fst (es ! i)) = Some (snd (es ! j)))"
proof (intro conjI allI impI)
  let ?body = "concat (map wire_calls es)"
  let ?r1 = "r\<lparr>currentOffset := int (length pre) + 1\<rparr>"
  have b0: "buffer r = pre @ of_nat (length es) # (?body @ post)"
    using assms(3) by (simp add: wire_call_batch_def)
  have r8: "readU8 r = (Inr (of_nat (length es)), ?r1)"
    using readU8_at[OF b0 assms(4)] .
  have u: "unat (of_nat (length es) :: u8) = length es"
    using assms(1) by (simp add: unat_of_nat)
  have ng: "\<not> (of_nat (length es) :: u8) > 8"
    using u8_not_gt[of "length es" 8] assms(1) by simp
  have b1: "buffer ?r1 = (pre @ [of_nat (length es)]) @ ?body @ post" using b0 by simp
  have o1: "currentOffset ?r1 = int (length (pre @ [of_nat (length es) :: u8]))" by simp
  have eq: "readMultiBytesAddressMap ADDRESS_BYTE_LENGTH r =
            readMultiBytesAddressMap_loop (length es) ADDRESS_BYTE_LENGTH Map.empty ?r1"
    using r8 by (simp add: readMultiBytesAddressMap_def rd_bind_def u ng)
  have len: "int (length (pre @ [of_nat (length es) :: u8])) + int (length ?body) =
             currentOffset r + int (length (wire_call_batch es))"
    using assms(4) by (simp add: wire_call_batch_def)
  have "readMultiBytesAddressMap_loop (length es) ADDRESS_BYTE_LENGTH Map.empty ?r1 =
          (Inr (Map.empty ++ map_of (rev es)),
           ?r1\<lparr>currentOffset := int (length (pre @ [of_nat (length es) :: u8])) + int (length ?body)\<rparr>)"
    using readMultiBytesAddressMap_loop_at[OF assms(2) b1 o1, of Map.empty] .
  then show "readMultiBytesAddressMap ADDRESS_BYTE_LENGTH r =
           (Inr (map_of (rev es)),
            r\<lparr>currentOffset := currentOffset r + int (length (wire_call_batch es))\<rparr>)"
    unfolding eq len by simp
next
  fix i j
  assume h: "i < j \<and> j < length es \<and> fst (es ! i) = fst (es ! j) \<and>
             (\<forall>k. j < k \<and> k < length es \<longrightarrow> fst (es ! k) \<noteq> fst (es ! j))"
  then have "map_of (rev es) (fst (es ! j)) = Some (snd (es ! j))"
    using map_of_rev_last_occurrence[of j es] by blast
  then show "map_of (rev es) (fst (es ! i)) = Some (snd (es ! j))" using h by simp
qed

text \<open>
  The theorem for 2-byte addresses and the batch \<open>[1,2] \<mapsto> [[9]]\<close>, \<open>[3,4] \<mapsto> []\<close>,
  \<open>[1,2] \<mapsto> [[8,7],[6]]\<close>: decoding succeeds, consumes all 26 bytes, and binds \<open>[1,2]\<close>
  to the blobs of the third entry.
\<close>

theorem C9_readMultiBytesAddressMap_later_entry_wins_witness:
  "\<exists>m. readMultiBytesAddressMap 2
      \<lparr>buffer = [3, 1, 2, 1, 1, 0, 0, 0, 9, 3, 4, 0, 1, 2, 2, 2, 0, 0, 0, 8, 7, 1, 0, 0, 0, 6],
       currentOffset = 0\<rparr> =
      (Inr m,
       \<lparr>buffer = [3, 1, 2, 1, 1, 0, 0, 0, 9, 3, 4, 0, 1, 2, 2, 2, 0, 0, 0, 8, 7, 1, 0, 0, 0, 6],
        currentOffset = 26\<rparr>) \<and>
    m [1, 2] = Some [[8, 7], [6]] \<and> m [3, 4] = Some []"
proof -
  let ?es = "[([1, 2], [[9]]), ([3, 4], []), ([1, 2], [[8, 7], [6]])] :: (Address \<times> u8 list list) list"
  let ?R = "\<lparr>buffer = [3, 1, 2, 1, 1, 0, 0, 0, 9, 3, 4, 0, 1, 2, 2, 2, 0, 0, 0, 8, 7, 1, 0, 0, 0, 6],
             currentOffset = 0\<rparr>"
  have w: "wire_call_batch ?es =
           [3, 1, 2, 1, 1, 0, 0, 0, 9, 3, 4, 0, 1, 2, 2, 2, 0, 0, 0, 8, 7, 1, 0, 0, 0, 6]"
    by (simp add: wire_call_batch_def wire_calls_def wire_blob_def wire_u32_def)
  have a1: "length ?es \<le> 8" by simp
  have a2: "\<forall>e\<in>set ?es. length (fst e) = 2 \<and> length (snd e) \<le> 10 \<and>
              (\<forall>b\<in>set (snd e). length b < 4294967296)" by simp
  have a3: "buffer ?R = [] @ wire_call_batch ?es @ []" by (simp only: w) simp
  have a4: "currentOffset ?R = int (length ([] :: u8 list))" by simp
  from C9_readMultiBytesAddressMap_later_entry_wins[OF a1 a2 a3 a4]
  have "readMultiBytesAddressMap 2 ?R =
          (Inr (map_of (rev ?es)), ?R\<lparr>currentOffset := currentOffset ?R + int (length (wire_call_batch ?es))\<rparr>)"
    by blast
  then have "readMultiBytesAddressMap 2 ?R = (Inr (map_of (rev ?es)), ?R\<lparr>currentOffset := 26\<rparr>)"
    by (simp only: w) simp
  moreover have "map_of (rev ?es) [1, 2] = Some [[8, 7], [6]]" by simp
  moreover have "map_of (rev ?es) [3, 4] = Some []" by simp
  ultimately show ?thesis by simp
qed

end
